theory Spec2Isabelle
  imports Complex_Main "HOL-Library.Word"
begin

section \<open>JavaScript values\<close>

text \<open>
  Sizes, indices and step counters hold integers and are modelled as \<open>int\<close> (or \<open>nat\<close>
  where the value is a length); on them double arithmetic is exact. Reading a property
  of \<open>undefined\<close> throws; that is the only exception the modelled code can raise.

  A JavaScript \<open>number\<close> is a double: a finite value, an infinity or \<open>NaN\<close> (the sign of
  zero is not tracked). Every arithmetic operation returns the double nearest to the
  exact result, ties going to the even significand.
\<close>

datatype js_error = TypeError

datatype num = Num real | PosInf | NegInf | NaN

subsection \<open>Rounding to a double\<close>

text \<open>Rounding to the nearest integer, ties to the even one.\<close>

definition rne :: "real \<Rightarrow> int" where
  "rne x =
     (let f = \<lfloor>x\<rfloor>; d = x - of_int f
      in if d < 1 / 2 then f else if 1 / 2 < d then f + 1 else if even f then f else f + 1)"

text \<open>
  The distance between neighbouring doubles around \<open>x \<noteq> 0\<close>: 52 binary digits below the
  leading one, and \<open>2 powr - 1074\<close> for all subnormal numbers.
\<close>

definition ulp :: "real \<Rightarrow> real" where
  "ulp x = 2 powr of_int (max \<lfloor>log 2 \<bar>x\<bar>\<rfloor> (- 1022) - 52)"

text \<open>
  The multiple of \<open>ulp x\<close> nearest to \<open>x\<close>. Below \<open>2 ^ 1024\<close> in magnitude it is the
  double that an operation with exact result \<open>x\<close> returns.
\<close>

definition to_double :: "real \<Rightarrow> real" where
  "to_double x = (if x = 0 then 0 else of_int (rne (x / ulp x)) * ulp x)"

text \<open>The result of an operation whose exact result is \<open>x\<close>, overflow included.\<close>

definition round_num :: "real \<Rightarrow> num" where
  "round_num x =
     (let y = to_double x
      in if 2 ^ 1024 \<le> \<bar>y\<bar> then (if 0 < y then PosInf else NegInf) else Num y)"

subsection \<open>The arithmetic of numbers\<close>

text \<open>
  \<open>a + b\<close>, \<open>a * b\<close> and \<open>Math.max(a, b)\<close> on doubles. A sum or a product of finite
  numbers is the exact result rounded; \<open>Math.max\<close> does not round.
\<close>

fun double_add :: "num \<Rightarrow> num \<Rightarrow> num" where
  "double_add NaN _ = NaN"
| "double_add _ NaN = NaN"
| "double_add PosInf NegInf = NaN"
| "double_add NegInf PosInf = NaN"
| "double_add PosInf _ = PosInf"
| "double_add _ PosInf = PosInf"
| "double_add NegInf _ = NegInf"
| "double_add _ NegInf = NegInf"
| "double_add (Num a) (Num b) = round_num (a + b)"

definition inf_times :: "bool \<Rightarrow> real \<Rightarrow> num" where
  "inf_times positive b =
     (if b = 0 then NaN else if (0 < b) = positive then PosInf else NegInf)"

fun double_mul :: "num \<Rightarrow> num \<Rightarrow> num" where
  "double_mul NaN _ = NaN"
| "double_mul _ NaN = NaN"
| "double_mul (Num a) (Num b) = round_num (a * b)"
| "double_mul PosInf (Num b) = inf_times True b"
| "double_mul (Num a) PosInf = inf_times True a"
| "double_mul NegInf (Num b) = inf_times False b"
| "double_mul (Num a) NegInf = inf_times False a"
| "double_mul PosInf PosInf = PosInf"
| "double_mul NegInf NegInf = PosInf"
| "double_mul PosInf NegInf = NegInf"
| "double_mul NegInf PosInf = NegInf"

fun double_max :: "num \<Rightarrow> num \<Rightarrow> num" where
  "double_max NaN _ = NaN"
| "double_max _ NaN = NaN"
| "double_max PosInf _ = PosInf"
| "double_max _ PosInf = PosInf"
| "double_max NegInf y = y"
| "double_max x NegInf = x"
| "double_max (Num a) (Num b) = Num (max a b)"

text \<open>\<open>xs[i]\<close>: \<open>undefined\<close> (here \<open>None\<close>) outside the array.\<close>

definition index :: "'a list \<Rightarrow> int \<Rightarrow> 'a option" where
  "index xs i = (if 0 \<le> i \<and> i < int (length xs) then Some (xs ! nat i) else None)"

text \<open>
  \<open>g[y][x]\<close> used as an operand: a missing row makes the second subscript throw, a
  missing column gives \<open>undefined\<close>, which as an operand is \<open>NaN\<close>.
\<close>

definition cell :: "num list list \<Rightarrow> int \<Rightarrow> int \<Rightarrow> js_error + num" where
  "cell g y x =
     (case index g y of
        None \<Rightarrow> Inl TypeError
      | Some row \<Rightarrow> (case index row x of None \<Rightarrow> Inr (NaN) | Some v \<Rightarrow> Inr v))"

text \<open>\<open>for (let i = 0; i < n; i++) body\<close> over a state, stopping at the first throw.\<close>

fun for_loop :: "nat list \<Rightarrow> (nat \<Rightarrow> 's \<Rightarrow> js_error + 's) \<Rightarrow> 's \<Rightarrow> js_error + 's" where
  "for_loop [] body s = Inr s"
| "for_loop (i # rest) body s =
     (case body i s of Inl e \<Rightarrow> Inl e | Inr s' \<Rightarrow> for_loop rest body s')"

text \<open>\<open>a % b\<close> on integers: the remainder of the truncated division, signed as \<open>a\<close>.\<close>

definition js_rem :: "int \<Rightarrow> int \<Rightarrow> int" where
  "js_rem a b = sgn a * (\<bar>a\<bar> mod \<bar>b\<bar>)"

section \<open>The convolution replay (component ConvAnimation)\<close>

datatype activation = Relu | NoActivation

record props =
  inputData :: "num list list"
  kernel :: "num list list"
  bias :: num
  activation :: activation

record dimensions =
  inputH :: int
  inputW :: int
  kernelH :: int
  kernelW :: int
  outputH :: int
  outputW :: int
  totalSteps :: int

text \<open>
  The dimensions read at the top of the component. \<open>inputData[0].length\<close> and
  \<open>kernel[0].length\<close> throw on an empty array.
\<close>

definition dims :: "props \<Rightarrow> js_error + dimensions" where
  "dims p =
     (case index (inputData p) 0 of
        None \<Rightarrow> Inl TypeError
      | Some irow \<Rightarrow>
          (case index (kernel p) 0 of
             None \<Rightarrow> Inl TypeError
           | Some krow \<Rightarrow>
               (let ih = int (length (inputData p)); iw = int (length irow);
                    kh = int (length (kernel p)); kw = int (length krow);
                    oh = ih - kh + 1; ow = iw - kw + 1
                in Inr \<lparr>inputH = ih, inputW = iw, kernelH = kh, kernelW = kw,
                         outputH = oh, outputW = ow, totalSteps = oh * ow\<rparr>)))"

text \<open>
  \<open>currentY = Math.floor(step / outputW)\<close>, \<open>currentX = step % outputW\<close>. With
  \<open>outputW = 0\<close> neither is a finite number; the functions below are used for
  \<open>outputW \<noteq> 0\<close> only (see \<open>calculateResult\<close>).
\<close>

definition currentY :: "dimensions \<Rightarrow> int \<Rightarrow> int" where
  "currentY d step = \<lfloor>real_of_int step / real_of_int (outputW d)\<rfloor>"

definition currentX :: "dimensions \<Rightarrow> int \<Rightarrow> int" where
  "currentX d step = js_rem step (outputW d)"

record calc_result =
  sum_val :: num
  preActivation :: num
  final :: num
  details :: "(nat \<times> nat \<times> num \<times> num) list"

definition activate :: "activation \<Rightarrow> num \<Rightarrow> num" where
  "activate a s = (case a of Relu \<Rightarrow> double_max (Num 0) s | NoActivation \<Rightarrow> s)"

text \<open>
  The body of the inner loop of \<open>calculateResult\<close>, on the pair (sum, details). A missing
  input value is recorded in the details as \<open>NaN\<close>, the operand it is in the product.
\<close>

definition calc_body ::
  "props \<Rightarrow> int \<Rightarrow> int \<Rightarrow> nat \<Rightarrow> nat \<Rightarrow> num \<times> (nat \<times> nat \<times> num \<times> num) list
     \<Rightarrow> js_error + num \<times> (nat \<times> nat \<times> num \<times> num) list" where
  "calc_body p cy cx i j acc =
     (case cell (inputData p) (cy + int i) (cx + int j) of
        Inl e \<Rightarrow> Inl e
      | Inr val \<Rightarrow>
          (case cell (kernel p) (int i) (int j) of
             Inl e \<Rightarrow> Inl e
           | Inr w \<Rightarrow>
               Inr (double_add (fst acc) (double_mul val w), snd acc @ [(i, j, val, w)])))"

text \<open>
  \<open>calculateResult\<close>, run on every render. When \<open>outputW = 0\<close> the current position is
  \<open>NaN\<close> or infinite, the kernel has at least one row and one column, and the first read
  \<open>inputData[currentY + 0]\<close> is \<open>undefined\<close>, so the next subscript throws.
\<close>

definition calculateResult :: "props \<Rightarrow> int \<Rightarrow> js_error + calc_result" where
  "calculateResult p step =
     (case dims p of
        Inl e \<Rightarrow> Inl e
      | Inr d \<Rightarrow>
          if outputW d = 0 then Inl TypeError
          else
            (case for_loop [0..<nat (kernelH d)]
                    (\<lambda>i. for_loop [0..<nat (kernelW d)]
                            (calc_body p (currentY d step) (currentX d step) i))
                    (Num 0, [])
             of Inl e \<Rightarrow> Inl e
              | Inr (s, ds) \<Rightarrow>
                  (let s' = double_add s (bias p)
                   in Inr \<lparr>sum_val = s', preActivation = s',
                            final = activate (activation p) s', details = ds\<rparr>)))"



subsection \<open>The step counter\<close>

record anim_state =
  step :: int
  isPlaying :: bool
  speed :: int

definition init_state :: anim_state where
  "init_state = \<lparr>step = 0, isPlaying = False, speed = 500\<rparr>"

text \<open>The updater run by the interval timer.\<close>

definition advance :: "int \<Rightarrow> anim_state \<Rightarrow> anim_state" where
  "advance tot st =
     (if step st \<ge> tot - 1 then st\<lparr>isPlaying := False\<rparr> else st\<lparr>step := step st + 1\<rparr>)"

text \<open>The timer exists only while \<open>isPlaying\<close> holds.\<close>

definition timer_tick :: "int \<Rightarrow> anim_state \<Rightarrow> anim_state" where
  "timer_tick tot st = (if isPlaying st then advance tot st else st)"

definition reset :: "anim_state \<Rightarrow> anim_state" where
  "reset st = st\<lparr>step := 0\<rparr>"

definition toggle_play :: "anim_state \<Rightarrow> anim_state" where
  "toggle_play st = st\<lparr>isPlaying := \<not> isPlaying st\<rparr>"




text \<open>A 3x3 input and a 2x2 kernel, for concrete runs.\<close>

definition demo_props :: props where
  "demo_props =
     \<lparr>inputData = [[Num 1, Num 2, Num 3], [Num 4, Num 5, Num 6], [Num 7, Num 8, Num 9]],
      kernel = [[Num 2, Num 0], [Num 0, Num (- 1)]], bias = Num 1, activation = Relu\<rparr>"

definition demo_dims :: dimensions where
  "demo_dims = \<lparr>inputH = 3, inputW = 3, kernelH = 2, kernelW = 2,
                 outputH = 2, outputW = 2, totalSteps = 4\<rparr>"

text \<open>
  Inputs on which rounding and overflow show: \<open>2 ^ 53 + 1\<close> is no double, and
  \<open>2 ^ 1023 * 2\<close> is beyond the largest one.
\<close>

definition rounding_props :: props where
  "rounding_props =
     \<lparr>inputData = [[Num (2 ^ 53), Num 1, Num (- (2 ^ 53))]],
      kernel = [[Num 1, Num 1, Num 1]], bias = Num 0, activation = Relu\<rparr>"

definition overflow_props :: props where
  "overflow_props =
     \<lparr>inputData = [[Num (2 ^ 1023), Num (2 ^ 1023)]],
      kernel = [[Num 2, Num (- 2)]], bias = Num 0, activation = Relu\<rparr>"

text \<open>
  Three neighbouring values of a pixel grid, the bytes 1, 35 and 36 over 255, under the
  kernel \<open>1, 1, - 1\<close>.
\<close>

definition pixel_props :: props where
  "pixel_props =
     \<lparr>inputData = [[Num (to_double (1 / 255)), Num (to_double (35 / 255)),
                     Num (to_double (36 / 255))]],
      kernel = [[Num 1, Num 1, Num (- 1)]], bias = Num 0, activation = Relu\<rparr>"

section \<open>Training log and predicted label (component CNNDemo)\<close>

record log_entry =
  epoch :: int
  loss :: real
  acc :: real

record tf_logs =
  logs_loss :: real
  logs_acc :: real

text \<open>
  \<open>trainModel\<close> hands the library's \<open>fit\<close> a wrapper that forwards an epoch's end to the
  caller only when that epoch's logs are present. The run of \<open>fit\<close> itself is outside
  the repository: it is given by the list of logs it reports, one entry per completed
  epoch, the epoch number being the position in the list.
\<close>

definition trainModel :: "(int \<Rightarrow> tf_logs \<Rightarrow> 's \<Rightarrow> 's) \<Rightarrow> tf_logs option list \<Rightarrow> 's \<Rightarrow> 's" where
  "trainModel onEpochEnd reported s =
     fold (\<lambda>(e, l) s. case l of None \<Rightarrow> s | Some lg \<Rightarrow> onEpochEnd (int e) lg s)
          (enumerate 0 reported) s"

record app_state =
  ready :: bool
  isTraining :: bool
  logs :: "log_entry list"
  trainingProgress :: real

text \<open>The callback \<open>handleStartTraining\<close> passes to \<open>trainModel\<close>.\<close>

definition on_epoch :: "int \<Rightarrow> int \<Rightarrow> tf_logs \<Rightarrow> app_state \<Rightarrow> app_state" where
  "on_epoch initialEpoch e lg s =
     s\<lparr>logs := logs s @ [\<lparr>epoch = initialEpoch + e, loss = logs_loss lg, acc = logs_acc lg\<rparr>],
       trainingProgress := (real_of_int e + 1) / 5 * 100\<rparr>"

definition handleStartTraining :: "tf_logs option list \<Rightarrow> app_state \<Rightarrow> app_state" where
  "handleStartTraining reported st =
     (if \<not> ready st then st
      else
        (let initialEpoch = int (length (logs st));
             st1 = st\<lparr>isTraining := True, trainingProgress := 0\<rparr>;
             st2 = trainModel (on_epoch initialEpoch) reported st1
         in st2\<lparr>isTraining := False, trainingProgress := 100\<rparr>))"

text \<open>\<open>handleReset\<close>, with the answer to the confirmation dialog as an argument.\<close>

definition handleReset :: "bool \<Rightarrow> app_state \<Rightarrow> app_state" where
  "handleReset confirmed st =
     (if isTraining st then st else if confirmed then st\<lparr>logs := []\<rparr> else st)"

text \<open>A fresh application state and a run of five epochs, for concrete runs.\<close>

definition fresh_state :: app_state where
  "fresh_state = \<lparr>ready = True, isTraining = False, logs = [], trainingProgress = 0\<rparr>"

definition five_epochs :: "tf_logs option list" where
  "five_epochs = replicate 5 (Some \<lparr>logs_loss = 1 / 2, logs_acc = 9 / 10\<rparr>)"

text \<open>
  \<open>Math.max(...xs)\<close> starts from \<open>-Infinity\<close> (here \<open>None\<close>) and takes the larger value
  at each element.
\<close>

definition Math_max :: "real list \<Rightarrow> real option" where
  "Math_max xs = fold (\<lambda>x m. case m of None \<Rightarrow> Some x | Some y \<Rightarrow> Some (max y x)) xs None"

text \<open>\<open>xs.indexOf(v)\<close>: the first index holding \<open>v\<close>, \<open>-1\<close> when there is none.\<close>

fun indexOf_from :: "int \<Rightarrow> real list \<Rightarrow> real \<Rightarrow> int" where
  "indexOf_from k [] v = -1"
| "indexOf_from k (x # xs) v = (if x = v then k else indexOf_from (k + 1) xs v)"

definition indexOf :: "real list \<Rightarrow> real \<Rightarrow> int" where
  "indexOf xs v = indexOf_from 0 xs v"

text \<open>The label computed in \<open>handlePredict\<close>; \<open>-Infinity\<close> is no element of the array.\<close>

definition predicted_label :: "real list \<Rightarrow> int" where
  "predicted_label probabilities =
     (case Math_max probabilities of None \<Rightarrow> -1 | Some m \<Rightarrow> indexOf probabilities m)"

section \<open>Images (module cnn-model)\<close>

text \<open>
  An \<open>ImageData\<close>: \<open>data\<close> is a \<open>Uint8ClampedArray\<close> of RGBA bytes, row by row. The
  platform only builds objects whose \<open>data\<close> has \<open>4 * width * height\<close> entries.
\<close>

record ImageData =
  width :: nat
  height :: nat
  data :: "8 word list"

definition wf_image :: "ImageData \<Rightarrow> bool" where
  "wf_image img = (length (data img) = 4 * width img * height img)"

text \<open>The red channel of pixel \<open>(x, y)\<close> of a well-formed image.\<close>

definition red :: "ImageData \<Rightarrow> nat \<Rightarrow> nat \<Rightarrow> 8 word" where
  "red img x y = data img ! (4 * (y * width img + x))"

subsection \<open>imageDataToGrid\<close>

text \<open>
  \<open>data[idx] / 255\<close>: the double nearest to the quotient; \<open>undefined / 255\<close> is \<open>NaN\<close>.
\<close>

definition channel_value :: "8 word list \<Rightarrow> int \<Rightarrow> num" where
  "channel_value d idx =
     (case index d idx of
        None \<Rightarrow> NaN
      | Some v \<Rightarrow> Num (to_double (real (unat v) / 255)))"

definition imageDataToGrid :: "ImageData \<Rightarrow> nat \<Rightarrow> js_error + num list list" where
  "imageDataToGrid imageData sz =
     (let startX = \<lfloor>(real (width imageData) - real sz) / 2\<rfloor>;
          startY = \<lfloor>(real (height imageData) - real sz) / 2\<rfloor>
      in Inr (map (\<lambda>i. map (\<lambda>j.
                 let x = startX + int j; y = startY + int i;
                     idx = (y * int (width imageData) + x) * 4
                 in channel_value (data imageData) idx) [0..<sz]) [0..<sz]))"

subsection \<open>preprocessImage\<close>

record bbox =
  minX :: int
  minY :: int
  maxX :: int
  maxY :: int
  hasPixels :: bool

text \<open>\<open>data[idx] > 50\<close> at pixel \<open>(x, y)\<close>; \<open>undefined > 50\<close> is false.\<close>

definition above_threshold :: "ImageData \<Rightarrow> nat \<Rightarrow> nat \<Rightarrow> bool" where
  "above_threshold img x y =
     (case index (data img) ((int y * int (width img) + int x) * 4) of
        None \<Rightarrow> False
      | Some v \<Rightarrow> 50 < unat v)"

definition scan_pixel :: "ImageData \<Rightarrow> nat \<Rightarrow> nat \<Rightarrow> bbox \<Rightarrow> bbox" where
  "scan_pixel img y x b =
     (if above_threshold img x y
      then \<lparr>minX = (if int x < minX b then int x else minX b),
            minY = (if int y < minY b then int y else minY b),
            maxX = (if int x > maxX b then int x else maxX b),
            maxY = (if int y > maxY b then int y else maxY b),
            hasPixels = True\<rparr>
      else b)"

definition scan :: "ImageData \<Rightarrow> bbox" where
  "scan img =
     fold (\<lambda>y. fold (scan_pixel img y) [0..<width img]) [0..<height img]
       \<lparr>minX = int (width img), minY = int (height img), maxX = 0, maxY = 0,
        hasPixels = False\<rparr>"

text \<open>The numbers handed to \<open>drawImage\<close>: source rectangle, then destination rectangle.\<close>

record placement =
  src_x :: int
  src_y :: int
  contentWidth :: int
  contentHeight :: int
  dx :: int
  dy :: int
  scaledWidth :: int
  scaledHeight :: int

text \<open>
  \<open>Math.min(20 / contentWidth, 20 / contentHeight)\<close>: each quotient is rounded to a
  double; so is the product \<open>contentWidth * scale\<close> below, before \<open>Math.floor\<close>.
\<close>

definition scale :: "int \<Rightarrow> int \<Rightarrow> real" where
  "scale cw ch = min (to_double (20 / real_of_int cw)) (to_double (20 / real_of_int ch))"

definition place :: "bbox \<Rightarrow> placement" where
  "place b =
     (let cw = maxX b - minX b + 1; ch = maxY b - minY b + 1;
          s = scale cw ch;
          sw = \<lfloor>to_double (real_of_int cw * s)\<rfloor>;
          sh = \<lfloor>to_double (real_of_int ch * s)\<rfloor>
      in \<lparr>src_x = minX b, src_y = minY b, contentWidth = cw, contentHeight = ch,
           dx = \<lfloor>(28 - real_of_int sw) / 2\<rfloor>, dy = \<lfloor>(28 - real_of_int sh) / 2\<rfloor>,
           scaledWidth = sw, scaledHeight = sh\<rparr>)"

text \<open>
  The canvas is the platform's, not the repository's. A bitmap gives the RGBA value of
  every pixel. What is used of the 2D context:
  \<^item> a new canvas is transparent black, and \<open>fillRect\<close> with \<open>fillStyle = 'black'\<close> makes
    the pixels of the rectangle opaque black;
  \<^item> \<open>drawImage\<close> with a destination rectangle changes no pixel outside that rectangle
    (so it paints nothing when the rectangle is empty); the colour it gives to a pixel
    inside depends on the browser's resampling filter, which is a parameter
    (\<open>resample\<close>) of the model;
  \<^item> \<open>getImageData(0, 0, w, h)\<close> returns a \<open>w\<close> by \<open>h\<close> image holding the pixels of that
    rectangle, row by row;
  \<^item> \<open>getContext('2d')\<close> on a new canvas returns a context on a conforming platform; its
    type allows \<open>null\<close>, and the code returns its input in that case. Whether a context
    is obtained, for each of the two canvases, is part of the environment, and the
    properties of the drawing are stated for environments that provide both.
\<close>

type_synonym pixel = "8 word \<times> 8 word \<times> 8 word \<times> 8 word"

type_synonym bitmap = "int \<Rightarrow> int \<Rightarrow> pixel"

record dom_env =
  canvas_ctx :: bool
  temp_ctx :: bool
  resample :: "ImageData \<Rightarrow> placement \<Rightarrow> bitmap \<Rightarrow> int \<Rightarrow> int \<Rightarrow> pixel"

definition new_canvas :: bitmap where
  "new_canvas = (\<lambda>x y. (0, 0, 0, 0))"

definition fillRect_black :: "bitmap \<Rightarrow> int \<Rightarrow> int \<Rightarrow> int \<Rightarrow> int \<Rightarrow> bitmap" where
  "fillRect_black bm x0 y0 w h =
     (\<lambda>x y. if x0 \<le> x \<and> x < x0 + w \<and> y0 \<le> y \<and> y < y0 + h then (0, 0, 0, 255) else bm x y)"

definition drawImage :: "dom_env \<Rightarrow> ImageData \<Rightarrow> placement \<Rightarrow> bitmap \<Rightarrow> bitmap" where
  "drawImage env src pl bm =
     (\<lambda>x y. if dx pl \<le> x \<and> x < dx pl + scaledWidth pl \<and> dy pl \<le> y \<and> y < dy pl + scaledHeight pl
            then resample env src pl bm x y else bm x y)"

definition pixel_bytes :: "pixel \<Rightarrow> 8 word list" where
  "pixel_bytes px = (case px of (r, g, b, a) \<Rightarrow> [r, g, b, a])"

definition getImageData :: "bitmap \<Rightarrow> nat \<Rightarrow> nat \<Rightarrow> ImageData" where
  "getImageData bm w h =
     \<lparr>width = w, height = h,
      data = concat (map (\<lambda>y. concat (map (\<lambda>x. pixel_bytes (bm (int x) (int y))) [0..<w]))
                       [0..<h])\<rparr>"

definition preprocessImage :: "dom_env \<Rightarrow> ImageData \<Rightarrow> ImageData" where
  "preprocessImage env imageData =
     (let b = scan imageData
      in if \<not> hasPixels b then imageData
         else if \<not> canvas_ctx env then imageData
         else
           (let canvas = fillRect_black new_canvas 0 0 28 28
            in if \<not> temp_ctx env then imageData
               else getImageData (drawImage env imageData (place b) canvas) 28 28))"

text \<open>The pixels above the threshold, and the box around them, as sets.\<close>

definition foreground :: "ImageData \<Rightarrow> (int \<times> int) set" where
  "foreground img =
     {(int x, int y) | x y. x < width img \<and> y < height img \<and> above_threshold img x y}"

definition bounding_box :: "ImageData \<Rightarrow> bbox" where
  "bounding_box img =
     \<lparr>minX = Min (fst ` foreground img), minY = Min (snd ` foreground img),
      maxX = Max (fst ` foreground img), maxY = Max (snd ` foreground img),
      hasPixels = True\<rparr>"

text \<open>Concrete images: a 28x28 canvas with one bright column, and an all-black one.\<close>

definition column_image :: ImageData where
  "column_image = getImageData (\<lambda>x y. if x = 13 then (255, 255, 255, 255) else (0, 0, 0, 255)) 28 28"

definition black_image :: ImageData where
  "black_image = getImageData (\<lambda>x y. (0, 0, 0, 255)) 28 28"

definition ideal_env :: dom_env where
  "ideal_env = \<lparr>canvas_ctx = True, temp_ctx = True, resample = (\<lambda>src pl bm x y. (255, 255, 255, 255))\<rparr>"

text \<open>
  A 28x28 image with a bright block, 6 wide and 18 tall, and a 4x4 image with one
  bright pixel and one grey one next to the middle.
\<close>

definition block_image :: ImageData where
  "block_image =
     getImageData (\<lambda>x y. if 5 \<le> x \<and> x \<le> 10 \<and> 3 \<le> y \<and> y \<le> 20
                          then (255, 255, 255, 255) else (0, 0, 0, 255)) 28 28"

definition dot_image :: ImageData where
  "dot_image =
     getImageData (\<lambda>x y. if x = 2 \<and> y = 1 then (255, 255, 255, 255)
                          else if x = 1 \<and> y = 2 then (51, 51, 51, 255)
                          else (0, 0, 0, 255)) 4 4"

text \<open>A content box 4 wide and 77 tall.\<close>

definition tall_box :: bbox where
  "tall_box = \<lparr>minX = 0, minY = 0, maxX = 3, maxY = 76, hasPixels = True\<rparr>"

text \<open>A single white pixel.\<close>

definition one_pixel :: ImageData where
  "one_pixel = \<lparr>width = 1, height = 1, data = [255, 255, 255, 255]\<rparr>"

text \<open>The start offsets of the centred window, for a window that fits.\<close>

definition window_start :: "nat \<Rightarrow> nat \<Rightarrow> nat" where
  "window_start extent n = (extent - n) div 2"

text \<open>A box grown to contain a set of pixels; what the scan has computed after visiting them.\<close>

definition grow :: "(int \<times> int) set \<Rightarrow> bbox \<Rightarrow> bbox" where
  "grow A b =
     \<lparr>minX = Min (insert (minX b) (fst ` A)), minY = Min (insert (minY b) (snd ` A)),
      maxX = Max (insert (maxX b) (fst ` A)), maxY = Max (insert (maxY b) (snd ` A)),
      hasPixels = (hasPixels b \<or> A \<noteq> {})\<rparr>"

section \<open>Properties of rounding\<close>

lemma rne_of_int: "rne (of_int n) = n"
  by (simp add: rne_def)

lemma rne_le:
  assumes "x \<le> of_int n"
  shows "rne x \<le> n"
proof (cases "x = of_int n")
  case True
  then show ?thesis by (simp add: rne_of_int)
next
  case False
  with assms have "x < of_int n" by simp
  then have "\<lfloor>x\<rfloor> < n" by (simp add: floor_less_iff)
  then have "\<lfloor>x\<rfloor> + 1 \<le> n" by simp
  then show ?thesis by (auto simp: rne_def Let_def)
qed

lemma rne_ge:
  assumes "of_int n \<le> x"
  shows "n \<le> rne x"
proof -
  have "n \<le> \<lfloor>x\<rfloor>" using assms by (simp add: le_floor_iff)
  then show ?thesis by (auto simp: rne_def Let_def)
qed

lemma rne_down:
  assumes "of_int f \<le> x" "x < of_int f + 1 / 2"
  shows "rne x = f"
proof -
  have "\<lfloor>x\<rfloor> = f" using assms by (simp add: floor_eq_iff)
  then show ?thesis using assms by (simp add: rne_def)
qed

lemma rne_up:
  assumes "of_int f + 1 / 2 < x" "x < of_int f + 1"
  shows "rne x = f + 1"
proof -
  have "\<lfloor>x\<rfloor> = f" using assms by (simp add: floor_eq_iff)
  then show ?thesis using assms by (simp add: rne_def)
qed

lemma rne_tie:
  assumes "x = of_int f + 1 / 2"
  shows "rne x = (if even f then f else f + 1)"
proof -
  have "\<lfloor>x\<rfloor> = f" using assms by (simp add: floor_eq_iff)
  then show ?thesis using assms by (simp add: rne_def)
qed

lemma ulp_pos: "0 < ulp x"
  by (simp add: ulp_def)

lemma ulp_binade:
  assumes "2 powr of_int k \<le> \<bar>x\<bar>" "\<bar>x\<bar> < 2 powr of_int (k + 1)" "- 1022 \<le> k"
  shows "ulp x = 2 powr of_int (k - 52)"
proof -
  have "0 < \<bar>x\<bar>" using assms(1) powr_gt_zero [of 2 "of_int k"] by linarith
  then have "\<lfloor>log 2 \<bar>x\<bar>\<rfloor> = k"
    using assms(1,2) by (simp add: floor_log_eq_powr_iff)
  then show ?thesis using assms(3) by (simp add: ulp_def)
qed

lemma to_double_binade:
  assumes "2 powr of_int k \<le> \<bar>x\<bar>" "\<bar>x\<bar> < 2 powr of_int (k + 1)" "- 1022 \<le> k"
  shows "to_double x = of_int (rne (x / 2 powr of_int (k - 52))) * 2 powr of_int (k - 52)"
proof -
  have "x \<noteq> 0" using assms(1) powr_gt_zero [of 2 "of_int k"] by auto
  then show ?thesis by (simp add: to_double_def ulp_binade [OF assms])
qed

lemma to_double_zero: "to_double 0 = 0"
  by (simp add: to_double_def)

lemma to_double_nonneg:
  assumes "0 \<le> x"
  shows "0 \<le> to_double x"
proof (cases "x = 0")
  case True
  then show ?thesis by (simp add: to_double_def)
next
  case False
  have "of_int 0 \<le> x / ulp x" using assms ulp_pos [of x] by simp
  then have "0 \<le> rne (x / ulp x)" by (rule rne_ge)
  then show ?thesis using False ulp_pos [of x] by (simp add: to_double_def)
qed

text \<open>Rounding does not cross a bound that lies on the grid of the argument.\<close>

lemma to_double_le_grid:
  assumes "x \<le> c" "c / ulp x = of_int n"
  shows "to_double x \<le> c"
proof (cases "x = 0")
  case True
  then show ?thesis using assms(1) by (simp add: to_double_def)
next
  case False
  have "x / ulp x \<le> c / ulp x" using assms(1) ulp_pos [of x] by (simp add: divide_right_mono)
  then have "rne (x / ulp x) \<le> n" using assms(2) by (intro rne_le) simp
  then have "of_int (rne (x / ulp x)) * ulp x \<le> of_int n * ulp x"
    using ulp_pos [of x] by simp
  moreover have "of_int n * ulp x = c" using assms(2) ulp_pos [of x] by (simp add: field_simps)
  ultimately show ?thesis using False by (simp add: to_double_def)
qed

lemma pow2_of_nonneg:
  assumes "0 \<le> j"
  shows "(2::real) powr of_int j = of_int (2 ^ nat j)"
  using assms powr_real_of_int [of 2 j] by simp

lemma inverse_powr_int:
  assumes "m \<le> 0"
  shows "1 / (2::real) powr of_int m = of_int (2 ^ nat (- m))"
  using assms by (simp add: powr_real_of_int field_simps)

lemma ulp_exponent_le:
  assumes "x \<noteq> 0" "\<bar>x\<bar> < 2 powr of_int k" "- 1022 < k"
  shows "\<exists>m. m \<le> k - 53 \<and> ulp x = 2 powr of_int m"
proof -
  have "log 2 \<bar>x\<bar> < of_int k"
    using assms(1,2) by (simp add: log_less_iff)
  then have "\<lfloor>log 2 \<bar>x\<bar>\<rfloor> < k" by (simp add: floor_less_iff)
  then have "max \<lfloor>log 2 \<bar>x\<bar>\<rfloor> (- 1022) - 52 \<le> k - 53" using assms(3) by simp
  then show ?thesis unfolding ulp_def by blast
qed

text \<open>A bound \<open>n / 2 ^ 53\<close> below 1 is on the grid of every smaller positive number.\<close>

lemma to_double_le_below_one:
  assumes "0 \<le> x" "x \<le> of_int n / 2 ^ 53" "of_int n / 2 ^ 53 < (1::real)"
  shows "to_double x \<le> of_int n / 2 ^ 53"
proof (cases "x = 0")
  case True
  then show ?thesis using assms by (simp add: to_double_def)
next
  case False
  have "\<bar>x\<bar> < 2 powr of_int 0" using assms by simp
  from ulp_exponent_le [OF False this] obtain m where m: "m \<le> - 53" "ulp x = 2 powr of_int m"
    by auto
  have "(2::real) powr of_int m * 2 powr of_int (- m - 53) = 2 powr of_int (- 53)"
    by (simp add: powr_add [symmetric])
  moreover have "(2::real) powr of_int (- m - 53) = of_int (2 ^ nat (- m - 53))"
    using m(1) by (intro pow2_of_nonneg) simp
  moreover have "(2::real) powr of_int (- 53) = 1 / 2 ^ 53"
    by (simp add: powr_minus_divide)
  ultimately have "1 / 2 ^ 53 = (2::real) powr of_int m * of_int (2 ^ nat (- m - 53))" by simp
  then have "of_int n / 2 ^ 53 / ulp x = of_int (n * 2 ^ nat (- m - 53))"
    using m(2) by (simp add: field_simps)
  with assms(2) show ?thesis by (rule to_double_le_grid)
qed

lemma to_double_le_one:
  assumes "0 \<le> x" "x \<le> 1"
  shows "to_double x \<le> 1"
proof (cases "x = 0")
  case True
  then show ?thesis by (simp add: to_double_def)
next
  case False
  have "\<bar>x\<bar> < 2 powr of_int 1" using assms by simp
  from ulp_exponent_le [OF False this] obtain m where m: "m \<le> - 52" "ulp x = 2 powr of_int m"
    by auto
  have "1 / ulp x = of_int (2 ^ nat (- m))"
    using m by (simp add: inverse_powr_int)
  with assms(2) show ?thesis by (rule to_double_le_grid)
qed

text \<open>Integers of magnitude up to \<open>2 ^ 53\<close> are doubles.\<close>

lemma to_double_of_int:
  assumes "\<bar>k\<bar> \<le> 2 ^ 53"
  shows "to_double (of_int k) = of_int k"
proof (cases "k = 0")
  case True
  then show ?thesis by (simp add: to_double_def)
next
  case False
  let ?x = "real_of_int k"
  define e where "e = \<lfloor>log 2 \<bar>?x\<bar>\<rfloor>"
  have pos: "0 < \<bar>?x\<bar>" using False by simp
  have one: "1 \<le> \<bar>?x\<bar>" using False by (simp flip: of_int_abs)
  have bin: "2 powr of_int e \<le> \<bar>?x\<bar>" "\<bar>?x\<bar> < 2 powr of_int (e + 1)"
    using floor_log_eq_powr_iff [of "\<bar>?x\<bar>" 2 e] pos by (simp_all add: e_def)
  have e0: "0 \<le> e" using one by (simp add: e_def)
  have u: "ulp ?x = 2 powr of_int (e - 52)" using e0 by (simp add: ulp_def e_def)
  have "real_of_int \<bar>k\<bar> \<le> real_of_int (2 ^ 53)"
    using assms by (simp only: of_int_le_iff)
  then have le53: "\<bar>?x\<bar> \<le> 2 ^ 53" by simp
  have p53: "(2::real) powr of_int 53 = 2 ^ 53" by (simp add: powr_real_of_int)
  have "(2::real) powr of_int e \<le> 2 powr of_int 53"
    using bin(1) le53 by (simp only: p53)
  then have "real_of_int e \<le> real_of_int 53"
    by (subst (asm) powr_le_cancel_iff) simp_all
  then have e53: "e \<le> 53" by (simp only: of_int_le_iff)
  have "\<exists>n. ?x / ulp ?x = of_int n"
  proof (cases "e \<le> 52")
    case True
    then have "1 / (2::real) powr of_int (e - 52) = of_int (2 ^ nat (52 - e))"
      using inverse_powr_int [of "e - 52"] by simp
    then have "?x / ulp ?x = of_int (k * 2 ^ nat (52 - e))"
      by (simp add: u field_simps)
    then show ?thesis ..
  next
    case False
    with e53 have e: "e = 53" by simp
    then have "2 ^ 53 \<le> \<bar>?x\<bar>" using bin(1) by (simp only: p53)
    with le53 have "\<bar>?x\<bar> = 2 ^ 53" by simp
    then have "real_of_int \<bar>k\<bar> = real_of_int (2 ^ 53)" by simp
    then have "\<bar>k\<bar> = 2 ^ 53" by (simp only: of_int_eq_iff)
    then have "even k" by (metis even_abs_add_iff even_add even_numeral even_power zero_less_numeral)
    then have "k = 2 * (k div 2)" by simp
    then have "?x = 2 * of_int (k div 2)" by (metis of_int_mult of_int_numeral)
    moreover have "ulp ?x = 2" using e by (simp add: u)
    ultimately have "?x / ulp ?x = of_int (k div 2)" by simp
    then show ?thesis ..
  qed
  then obtain n where n: "?x / ulp ?x = of_int n" ..
  then have "of_int n * ulp ?x = ?x" using ulp_pos [of ?x] by (simp add: field_simps)
  then show ?thesis using False n by (simp add: to_double_def rne_of_int)
qed

lemma to_double_numerals: "to_double 1 = 1" "to_double 20 = 20"
  using to_double_of_int [of 1] to_double_of_int [of 20] by simp_all

lemma to_double_Ints:
  assumes "x \<in> \<int>" "\<bar>x\<bar> \<le> 2 ^ 53"
  shows "to_double x = x"
proof -
  from assms(1) obtain k where k: "x = of_int k" by (elim Ints_cases)
  have "real_of_int \<bar>k\<bar> \<le> real_of_int (2 ^ 53)" using assms(2) k by simp
  then have "\<bar>k\<bar> \<le> 2 ^ 53" by (simp only: of_int_le_iff)
  then show ?thesis using k by (simp add: to_double_of_int)
qed

lemma round_num_Ints:
  assumes "x \<in> \<int>" "\<bar>x\<bar> \<le> 2 ^ 53"
  shows "round_num x = Num x"
proof -
  have "\<bar>x\<bar> < 2 ^ 1024" using assms(2) by (rule le_less_trans) simp
  then show ?thesis by (simp add: round_num_def to_double_Ints [OF assms])
qed

text \<open>Rounding a number whose binade is known.\<close>

lemma pow2_split:
  "(2::real) powr of_int (k + int n) = 2 ^ n * 2 powr of_int k"
proof -
  have "(2::real) powr of_int (k + int n) = 2 powr (of_int k + of_nat n)" by simp
  also have "\<dots> = 2 powr of_int k * 2 powr of_nat n" by (rule powr_add)
  also have "(2::real) powr of_nat n = 2 ^ n" by (simp add: powr_realpow)
  finally show ?thesis by (simp add: mult.commute)
qed

lemma to_double_grid:
  assumes "u = 2 powr of_int (k - 52)" "- 1022 \<le> k" "2 ^ 52 * u \<le> \<bar>x\<bar>" "\<bar>x\<bar> < 2 ^ 53 * u"
  shows "to_double x = of_int (rne (x / u)) * u"
proof -
  have "(2::real) powr of_int k = 2 ^ 52 * 2 powr of_int (k - 52)"
    using pow2_split [of "k - 52" 52] by simp
  then have a: "2 powr of_int k \<le> \<bar>x\<bar>" using assms(1,3) by (simp only:)
  have "(2::real) powr of_int (k + 1) = 2 ^ 53 * 2 powr of_int (k - 52)"
    using pow2_split [of "k - 52" 53] by (simp add: add.commute)
  then have b: "\<bar>x\<bar> < 2 powr of_int (k + 1)" using assms(1,4) by (simp only:)
  show ?thesis using to_double_binade [OF a b assms(2)] assms(1) by (simp only:)
qed

lemma rne_numeral: "rne (numeral n) = numeral n" "rne (- numeral n) = - numeral n"
  using rne_of_int [of "numeral n"] rne_of_int [of "- numeral n"] by simp_all

lemma to_double_fifth: "to_double (1 / 5) = 3602879701896397 / 18014398509481984"
proof -
  have u: "(1 / 2 ^ 55 :: real) = 2 powr of_int (- 3 - 52)" by (simp add: powr_minus_divide)
  have "to_double (1 / 5) = of_int (rne ((1 / 5) / (1 / 2 ^ 55))) * (1 / 2 ^ 55)"
    by (rule to_double_grid [OF u]) simp_all
  moreover have "rne ((1 / 5) / (1 / 2 ^ 55)) = 7205759403792793 + 1"
    by (rule rne_up) simp_all
  ultimately show ?thesis by simp
qed

lemma to_double_ten_thirds: "to_double (10 / 3) = 7505999378950827 / 2251799813685248"
proof -
  have u: "(1 / 2 ^ 51 :: real) = 2 powr of_int (1 - 52)" by (simp add: powr_minus_divide)
  have "to_double (10 / 3) = of_int (rne ((10 / 3) / (1 / 2 ^ 51))) * (1 / 2 ^ 51)"
    by (rule to_double_grid [OF u]) simp_all
  moreover have "rne ((10 / 3) / (1 / 2 ^ 51)) = 7505999378950826 + 1"
    by (rule rne_up) simp_all
  ultimately show ?thesis by simp
qed

lemma to_double_ten_ninths: "to_double (10 / 9) = 2501999792983609 / 2251799813685248"
proof -
  have u: "(1 / 2 ^ 52 :: real) = 2 powr of_int (0 - 52)" by (simp add: powr_minus_divide)
  have "to_double (10 / 9) = of_int (rne ((10 / 9) / (1 / 2 ^ 52))) * (1 / 2 ^ 52)"
    by (rule to_double_grid [OF u]) simp_all
  moreover have "rne ((10 / 9) / (1 / 2 ^ 52)) = 5003999585967217 + 1"
    by (rule rne_up) simp_all
  ultimately show ?thesis by simp
qed

lemma to_double_six_scaled:
  "to_double (6 * (2501999792983609 / 2251799813685248)) = 7505999378950827 / 1125899906842624"
proof -
  have u: "(1 / 2 ^ 50 :: real) = 2 powr of_int (2 - 52)" by (simp add: powr_minus_divide)
  have "to_double (6 * (2501999792983609 / 2251799813685248))
          = of_int (rne (6 * (2501999792983609 / 2251799813685248) / (1 / 2 ^ 50))) * (1 / 2 ^ 50)"
    by (rule to_double_grid [OF u]) simp_all
  then show ?thesis by (simp add: rne_numeral)
qed

lemma to_double_eighteen_scaled:
  "to_double (18 * (2501999792983609 / 2251799813685248)) = 20"
proof -
  have u: "(1 / 2 ^ 48 :: real) = 2 powr of_int (4 - 52)" by (simp add: powr_minus_divide)
  have "to_double (18 * (2501999792983609 / 2251799813685248))
          = of_int (rne (18 * (2501999792983609 / 2251799813685248) / (1 / 2 ^ 48))) * (1 / 2 ^ 48)"
    by (rule to_double_grid [OF u]) simp_all
  moreover have "rne (18 * (2501999792983609 / 2251799813685248) / (1 / 2 ^ 48))
                   = 5629499534213120"
    by (rule rne_down) simp_all
  ultimately show ?thesis by simp
qed

lemma to_double_tie: "to_double (2 ^ 53 + 1) = 2 ^ 53"
proof -
  have u: "(2 :: real) = 2 powr of_int (53 - 52)" by simp
  have "to_double (2 ^ 53 + 1) = of_int (rne ((2 ^ 53 + 1) / 2)) * 2"
    by (rule to_double_grid [OF u]) simp_all
  moreover have "rne ((2 ^ 53 + 1) / 2) = (if even (4503599627370496::int) then 4503599627370496 else 4503599627370496 + 1)"
    by (rule rne_tie) simp
  ultimately show ?thesis by simp
qed

lemma round_num_overflow: "round_num (2 ^ 1024) = PosInf" "round_num (- (2 ^ 1024)) = NegInf"
proof -
  have u: "(2 ^ 972 :: real) = 2 powr of_int (1024 - 52)" by (simp add: powr_real_of_int)
  have "to_double (2 ^ 1024) = of_int (rne (2 ^ 1024 / 2 ^ 972)) * 2 ^ 972"
    by (rule to_double_grid [OF u]) simp_all
  then have p: "to_double (2 ^ 1024) = 2 ^ 1024" by (simp add: rne_numeral)
  have "to_double (- (2 ^ 1024)) = of_int (rne (- (2 ^ 1024) / 2 ^ 972)) * 2 ^ 972"
    by (rule to_double_grid [OF u]) simp_all
  then have n: "to_double (- (2 ^ 1024)) = - (2 ^ 1024)" by (simp add: rne_numeral)
  show "round_num (2 ^ 1024) = PosInf" using p by (simp add: round_num_def Let_def)
  show "round_num (- (2 ^ 1024)) = NegInf" using n by (simp add: round_num_def Let_def)
qed

section \<open>Properties of the convolution replay\<close>

lemma js_rem_nonneg: "0 \<le> a \<Longrightarrow> 0 < b \<Longrightarrow> js_rem a b = a mod b"
  by (cases "a = 0") (simp_all add: js_rem_def)

lemma dims_InrD:
  assumes "dims p = Inr d"
  shows "inputData p \<noteq> []" and "kernel p \<noteq> []"
    and "inputH d = int (length (inputData p))"
    and "inputW d = int (length (inputData p ! 0))"
    and "kernelH d = int (length (kernel p))"
    and "kernelW d = int (length (kernel p ! 0))"
    and "outputH d = inputH d - kernelH d + 1"
    and "outputW d = inputW d - kernelW d + 1"
    and "totalSteps d = outputH d * outputW d"
  using assms
  by (auto simp: dims_def index_def Let_def split: if_splits)

text \<open>
  Claim C2. When the component reads dimensions \<open>d\<close> from its input and kernel and the
  kernel is no larger than the input, \<open>totalSteps\<close> is
  \<open>(inputH - kernelH + 1) * (inputW - kernelW + 1)\<close>, and at every step index \<open>S \<ge> 0\<close>
  the current output row is \<open>S div outputW\<close> and the current output column is
  \<open>S mod outputW\<close>, with \<open>outputW = inputW - kernelW + 1\<close>.
\<close>

theorem replay_dimensions:
  assumes "dims p = Inr d"
    and "kernelH d \<le> inputH d" and "kernelW d \<le> inputW d"
    and "0 \<le> S"
  shows "inputH d = int (length (inputData p)) \<and> inputW d = int (length (inputData p ! 0))
       \<and> kernelH d = int (length (kernel p)) \<and> kernelW d = int (length (kernel p ! 0))
       \<and> totalSteps d = (inputH d - kernelH d + 1) * (inputW d - kernelW d + 1)
       \<and> currentY d S = S div (inputW d - kernelW d + 1)
       \<and> currentX d S = S mod (inputW d - kernelW d + 1)"
proof -
  note D = dims_InrD [OF assms(1)]
  have ow: "0 < outputW d" using D(8) assms(3) by simp
  have Y: "currentY d S = S div outputW d"
    by (simp add: currentY_def floor_divide_of_int_eq)
  have X: "currentX d S = S mod outputW d"
    using js_rem_nonneg [OF assms(4) ow] by (simp add: currentX_def)
  show ?thesis using D Y X by simp
qed

lemma demo_dims_read: "dims demo_props = Inr demo_dims"
  by (simp add: dims_def demo_props_def demo_dims_def index_def)

text \<open>The 3x3 input with the 2x2 kernel at step 3: four steps, position (1, 1).\<close>

theorem replay_dimensions_witness:
  "dims demo_props = Inr demo_dims \<and> kernelH demo_dims \<le> inputH demo_dims
     \<and> kernelW demo_dims \<le> inputW demo_dims \<and> (0::int) \<le> 3
     \<and> totalSteps demo_dims = 4 \<and> currentY demo_dims 3 = 1 \<and> currentX demo_dims 3 = 1"
proof -
  have a: "dims demo_props = Inr demo_dims" by (rule demo_dims_read)
  have b: "kernelH demo_dims \<le> inputH demo_dims" by (simp add: demo_dims_def)
  have c: "kernelW demo_dims \<le> inputW demo_dims" by (simp add: demo_dims_def)
  have e: "(0::int) \<le> 3" by simp
  show ?thesis using replay_dimensions [OF a b c e] a by (simp add: demo_dims_def)
qed

lemma step_advance:
  "step (advance tot s) = (if tot - 1 \<le> step s then step s else step s + 1)"
  by (simp add: advance_def)

lemma advance_funpow:
  "step st + int k \<le> tot - 1 \<Longrightarrow> step ((advance tot ^^ k) st) = step st + int k"
proof (induction k)
  case 0
  then show ?case by simp
next
  case (Suc k)
  then have "step ((advance tot ^^ k) st) = step st + int k" by simp
  with Suc.prems show ?case by (simp add: step_advance)
qed

text \<open>
  Claim C3. With at least one step, the step index stays within \<open>[0, totalSteps - 1]\<close>:
  reset gives 0 from any state, \<open>totalSteps - 1\<close> advances from reset give
  \<open>totalSteps - 1\<close>, an advance at \<open>totalSteps - 1\<close> leaves the index there and turns
  playing off (after which the timer does nothing), and every transition keeps the index
  in range.
\<close>

theorem step_saturates:
  assumes "1 \<le> tot"
  shows "step (reset st) = 0
       \<and> step ((advance tot ^^ nat (tot - 1)) (reset st)) = tot - 1
       \<and> (step st = tot - 1 \<longrightarrow>
            step (advance tot st) = tot - 1 \<and> \<not> isPlaying (advance tot st)
          \<and> timer_tick tot (advance tot st) = advance tot st)
       \<and> (0 \<le> step st \<and> step st \<le> tot - 1 \<longrightarrow>
            0 \<le> step (advance tot st) \<and> step (advance tot st) \<le> tot - 1
          \<and> 0 \<le> step (timer_tick tot st) \<and> step (timer_tick tot st) \<le> tot - 1
          \<and> step (toggle_play st) = step st)"
proof -
  have "step ((advance tot ^^ nat (tot - 1)) (reset st)) = tot - 1"
    using advance_funpow [of "reset st" "nat (tot - 1)" tot] assms by (simp add: reset_def)
  then show ?thesis
    using assms by (auto simp: advance_def timer_tick_def reset_def toggle_play_def)
qed

text \<open>Four steps, from a playing state at the last step.\<close>

theorem step_saturates_witness:
  "(1::int) \<le> 4 \<and> step \<lparr>step = 3, isPlaying = True, speed = 500\<rparr> = 4 - 1
   \<and> step ((advance 4 ^^ nat (4 - 1)) (reset \<lparr>step = 3, isPlaying = True, speed = 500\<rparr>)) = 3
   \<and> step (advance 4 \<lparr>step = 3, isPlaying = True, speed = 500\<rparr>) = 3
   \<and> \<not> isPlaying (advance 4 \<lparr>step = 3, isPlaying = True, speed = 500\<rparr>)"
  using step_saturates [of 4 "\<lparr>step = 3, isPlaying = True, speed = 500\<rparr>"]
  by simp












lemma double_add_commute: "double_add a b = double_add b a"
  by (cases a; cases b) (simp_all add: add.commute)


text \<open>Double arithmetic on integers of magnitude up to \<open>2 ^ 53\<close> is exact.\<close>

lemma round_num_numeral:
  "round_num 0 = Num 0"
  "round_num 1 = Num 1"
  "round_num (- 1) = Num (- 1)"
  "numeral n \<le> (2 ^ 53 :: real) \<Longrightarrow> round_num (numeral n) = Num (numeral n)"
  "numeral n \<le> (2 ^ 53 :: real) \<Longrightarrow> round_num (- numeral n) = Num (- numeral n)"
  by (simp_all add: round_num_Ints)



text \<open>
  Rounding is part of the result: with input \<open>2 ^ 53, 1, - 2 ^ 53\<close> and kernel
  \<open>1, 1, 1\<close> the replay shows 0, the 1 being lost when it is added to \<open>2 ^ 53\<close>; with
  input \<open>2 ^ 1023, 2 ^ 1023\<close> and kernel \<open>2, - 2\<close> both products overflow and their sum
  is \<open>NaN\<close>.
\<close>

lemma replay_rounds:
  "\<exists>r. calculateResult rounding_props 0 = Inr r \<and> final r = Num 0"
proof -
  have sums: "double_add (Num (2 ^ 53)) (Num 1) = Num (2 ^ 53)"
    using to_double_tie by (simp add: round_num_def Let_def)
  show ?thesis
    using sums
    by (simp add: calculateResult_def dims_def rounding_props_def index_def currentY_def
          currentX_def js_rem_def calc_body_def cell_def activate_def
          round_num_numeral upt_rec Let_def)
qed

lemma replay_overflows:
  "\<exists>r. calculateResult overflow_props 0 = Inr r \<and> final r = NaN"
proof -
  have prods: "double_mul (Num (2 ^ 1023)) (Num 2) = PosInf"
              "double_mul (Num (2 ^ 1023)) (Num (- 2)) = NegInf"
    using round_num_overflow by simp_all
  show ?thesis
    using prods
    by (simp add: calculateResult_def dims_def overflow_props_def index_def currentY_def
          currentX_def js_rem_def calc_body_def cell_def activate_def
          upt_rec Let_def)
qed

lemma to_double_pixel_1: "to_double (1 / 255) = 282578800148737 / 72057594037927936"
proof -
  have u: "(1 / 2 ^ 60 :: real) = 2 powr of_int (- 8 - 52)" by (simp add: powr_minus_divide)
  have "to_double (1 / 255) = of_int (rne ((1 / 255) / (1 / 2 ^ 60))) * (1 / 2 ^ 60)"
    by (rule to_double_grid [OF u]) simp_all
  moreover have "rne ((1 / 255) / (1 / 2 ^ 60)) = 4521260802379792"
    by (rule rne_down) simp_all
  ultimately show ?thesis by simp
qed

lemma to_double_pixel_35: "to_double (7 / 51) = 2472564501301449 / 18014398509481984"
proof -
  have u: "(1 / 2 ^ 55 :: real) = 2 powr of_int (- 3 - 52)" by (simp add: powr_minus_divide)
  have "to_double (7 / 51) = of_int (rne ((7 / 51) / (1 / 2 ^ 55))) * (1 / 2 ^ 55)"
    by (rule to_double_grid [OF u]) simp_all
  moreover have "rne ((7 / 51) / (1 / 2 ^ 55)) = 4945129002602897 + 1"
    by (rule rne_up) simp_all
  ultimately show ?thesis by simp
qed

lemma to_double_pixel_36: "to_double (12 / 85) = 2543209201338633 / 18014398509481984"
proof -
  have u: "(1 / 2 ^ 55 :: real) = 2 powr of_int (- 3 - 52)" by (simp add: powr_minus_divide)
  have "to_double (12 / 85) = of_int (rne ((12 / 85) / (1 / 2 ^ 55))) * (1 / 2 ^ 55)"
    by (rule to_double_grid [OF u]) simp_all
  moreover have "rne ((12 / 85) / (1 / 2 ^ 55)) = 5086418402677266"
    by (rule rne_down) simp_all
  ultimately show ?thesis by simp
qed

lemma to_double_pixel_fixed:
  "to_double (282578800148737 / 72057594037927936) = 282578800148737 / 72057594037927936"
  "to_double (2472564501301449 / 18014398509481984) = 2472564501301449 / 18014398509481984"
  "to_double (- (2543209201338633 / 18014398509481984))
     = - (2543209201338633 / 18014398509481984)"
proof -
  have u: "(1 / 2 ^ 60 :: real) = 2 powr of_int (- 8 - 52)" by (simp add: powr_minus_divide)
  have "to_double (282578800148737 / 72057594037927936)
          = of_int (rne ((282578800148737 / 72057594037927936) / (1 / 2 ^ 60))) * (1 / 2 ^ 60)"
    by (rule to_double_grid [OF u]) simp_all
  then show "to_double (282578800148737 / 72057594037927936)
               = 282578800148737 / 72057594037927936"
    by (simp add: rne_numeral)
  have v: "(1 / 2 ^ 55 :: real) = 2 powr of_int (- 3 - 52)" by (simp add: powr_minus_divide)
  have "to_double (2472564501301449 / 18014398509481984)
          = of_int (rne ((2472564501301449 / 18014398509481984) / (1 / 2 ^ 55))) * (1 / 2 ^ 55)"
    by (rule to_double_grid [OF v]) simp_all
  then show "to_double (2472564501301449 / 18014398509481984)
               = 2472564501301449 / 18014398509481984"
    by (simp add: rne_numeral)
  have "to_double (- (2543209201338633 / 18014398509481984))
          = of_int (rne ((- (2543209201338633 / 18014398509481984)) / (1 / 2 ^ 55)))
              * (1 / 2 ^ 55)"
    by (rule to_double_grid [OF v]) simp_all
  then show "to_double (- (2543209201338633 / 18014398509481984))
               = - (2543209201338633 / 18014398509481984)"
    by (simp add: rne_numeral)
qed

lemma to_double_pixel_sum:
  "to_double (282578800148737 / 72057594037927936 + 2472564501301449 / 18014398509481984)
     = 2543209201338633 / 18014398509481984"
proof -
  have v: "(1 / 2 ^ 55 :: real) = 2 powr of_int (- 3 - 52)" by (simp add: powr_minus_divide)
  have "to_double (282578800148737 / 72057594037927936 + 2472564501301449 / 18014398509481984)
          = of_int (rne ((282578800148737 / 72057594037927936
                          + 2472564501301449 / 18014398509481984) / (1 / 2 ^ 55)))
              * (1 / 2 ^ 55)"
    by (rule to_double_grid [OF v]) simp_all
  moreover have "rne ((282578800148737 / 72057594037927936
                       + 2472564501301449 / 18014398509481984) / (1 / 2 ^ 55))
                   = (if even (5086418402677266::int) then 5086418402677266
                      else 5086418402677266 + 1)"
    by (rule rne_tie) simp
  ultimately show ?thesis by simp
qed

text \<open>
  Three neighbouring pixel values of a grid, the bytes 1, 35 and 36, under the kernel
  \<open>1, 1, - 1\<close>: the sum of the first two is a tie that rounds to the third, so the replay
  shows 0, although the three values taken as real numbers sum to \<open>1 / 2 ^ 56\<close>.
\<close>

lemma replay_pixels:
  "\<exists>r. calculateResult pixel_props 0 = Inr r \<and> final r = Num 0"
proof -
  have p: "\<bar>2543209201338633 / 18014398509481984 :: real\<bar> < 2 ^ 1024"
          "\<bar>282578800148737 / 72057594037927936 :: real\<bar> < 2 ^ 1024"
          "\<bar>2472564501301449 / 18014398509481984 :: real\<bar> < 2 ^ 1024"
    by simp_all
  have r: "round_num (282578800148737 / 72057594037927936)
             = Num (282578800148737 / 72057594037927936)"
          "round_num (2472564501301449 / 18014398509481984)
             = Num (2472564501301449 / 18014398509481984)"
          "round_num (- (2543209201338633 / 18014398509481984))
             = Num (- (2543209201338633 / 18014398509481984))"
    using p by (simp_all add: round_num_def Let_def to_double_pixel_fixed)
  have s: "double_add (Num (282578800148737 / 72057594037927936))
             (Num (2472564501301449 / 18014398509481984))
             = Num (2543209201338633 / 18014398509481984)"
    using p to_double_pixel_sum by (simp add: round_num_def Let_def)
  have t: "double_add (Num (2543209201338633 / 18014398509481984))
             (Num (- (2543209201338633 / 18014398509481984))) = Num 0"
    by (simp add: round_num_numeral)
  have d: "double_mul (Num (282578800148737 / 72057594037927936)) (Num 1)
             = Num (282578800148737 / 72057594037927936)"
          "double_mul (Num (2472564501301449 / 18014398509481984)) (Num 1)
             = Num (2472564501301449 / 18014398509481984)"
          "double_mul (Num (2543209201338633 / 18014398509481984)) (Num (- 1))
             = Num (- (2543209201338633 / 18014398509481984))"
          "double_add (Num 0) (Num (282578800148737 / 72057594037927936))
             = Num (282578800148737 / 72057594037927936)"
    using r by simp_all
  have z: "double_add (Num 0) (Num 0) = Num 0" by (simp add: round_num_numeral)
  show ?thesis
    using s t d z
    by (simp add: calculateResult_def dims_def pixel_props_def index_def currentY_def
          currentX_def js_rem_def calc_body_def cell_def activate_def
          to_double_pixel_1 to_double_pixel_35 to_double_pixel_36
          round_num_numeral upt_rec Let_def del: double_add.simps double_mul.simps)
qed

lemma pixels_exact_sum:
  "to_double (1 / 255) + to_double (35 / 255) - to_double (36 / 255) = 1 / 2 ^ 56"
  by (simp add: to_double_pixel_1 to_double_pixel_35 to_double_pixel_36)

section \<open>Properties of the predicted label and of the training log\<close>

lemma fold_Some_max:
  "fold (\<lambda>x m. case m of None \<Rightarrow> Some x | Some y \<Rightarrow> Some (max y x)) xs (Some (m::real))
     = Some (Max (insert m (set xs)))"
proof (induction xs arbitrary: m)
  case Nil
  then show ?case by simp
next
  case (Cons x xs)
  have "Max (insert (max m x) (set xs)) = Max (insert m (insert x (set xs)))"
    by (cases "set xs = {}") (simp_all add: max.assoc)
  with Cons show ?case by simp
qed

lemma Math_max_Cons: "Math_max (x # xs) = Some (Max (set (x # xs)))"
  by (simp add: Math_max_def fold_Some_max)

lemma indexOf_from_first:
  assumes "v \<in> set xs"
  shows "\<exists>i<length xs. indexOf_from k xs v = k + int i \<and> xs ! i = v \<and> (\<forall>j<i. xs ! j \<noteq> v)"
  using assms
proof (induction xs arbitrary: k)
  case Nil
  then show ?case by simp
next
  case (Cons x xs)
  show ?case
  proof (cases "x = v")
    case True
    then show ?thesis by (intro exI [of _ 0]) simp
  next
    case False
    with Cons.prems have "v \<in> set xs" by simp
    from Cons.IH [OF this, of "k + 1"] obtain i where i: "i < length xs"
      "indexOf_from (k + 1) xs v = k + 1 + int i" "xs ! i = v" "\<forall>j<i. xs ! j \<noteq> v"
      by blast
    have "\<forall>j<Suc i. (x # xs) ! j \<noteq> v"
      using False i(4) by (auto simp: nth_Cons split: nat.splits)
    with i False show ?thesis by (intro exI [of _ "Suc i"]) simp
  qed
qed

text \<open>
  Claim C8. For a non-empty probability vector the label computed by the prediction
  handler is an index of the vector, the entry there is the maximum of the vector, and
  every entry before it is strictly smaller: among several maximal entries the label is
  the first.
\<close>

theorem label_is_first_maximum:
  assumes "probabilities \<noteq> []"
  shows "\<exists>k<length probabilities.
           predicted_label probabilities = int k
         \<and> probabilities ! k = Max (set probabilities)
         \<and> (\<forall>i<length probabilities. probabilities ! i \<le> probabilities ! k)
         \<and> (\<forall>j<k. probabilities ! j < probabilities ! k)"
proof -
  let ?m = "Max (set probabilities)"
  have mx: "Math_max probabilities = Some ?m"
    using assms Math_max_Cons by (cases probabilities) simp_all
  have "?m \<in> set probabilities" using assms by (intro Max_in) simp_all
  from indexOf_from_first [OF this, of 0] obtain k where k: "k < length probabilities"
    "indexOf probabilities ?m = int k" "probabilities ! k = ?m"
    "\<forall>j<k. probabilities ! j \<noteq> ?m"
    by (auto simp: indexOf_def)
  have le: "probabilities ! i \<le> ?m" if "i < length probabilities" for i
    using that by (intro Max_ge) simp_all
  have "probabilities ! j < ?m" if "j < k" for j
    using le [of j] k(1,4) that by (simp add: order_less_le)
  with k le show ?thesis
    by (intro exI [of _ k]) (simp add: predicted_label_def mx)
qed

text \<open>A vector whose maximum 2/5 sits at indices 1 and 2: the label is 1.\<close>

theorem label_is_first_maximum_witness:
  "predicted_label [1 / 10, 2 / 5, 2 / 5, 1 / 10] = 1
   \<and> (\<exists>k<length [1 / 10, 2 / 5, 2 / 5, 1 / 10 :: real].
         predicted_label [1 / 10, 2 / 5, 2 / 5, 1 / 10] = int k
       \<and> [1 / 10, 2 / 5, 2 / 5, 1 / 10] ! k = Max (set [1 / 10, 2 / 5, 2 / 5, 1 / 10 :: real]))"
proof -
  have ne: "[1 / 10, 2 / 5, 2 / 5, 1 / 10 :: real] \<noteq> []" by simp
  have "predicted_label [1 / 10, 2 / 5, 2 / 5, 1 / 10] = 1"
    by (simp add: predicted_label_def Math_max_def indexOf_def)
  with label_is_first_maximum [OF ne] show ?thesis by blast
qed

lemma trainModel_on_epoch:
  fixes rs :: "tf_logs option list" and s :: app_state
  assumes "None \<notin> set rs"
  shows "map epoch (logs (trainModel (on_epoch c) rs s))
           = map epoch (logs s) @ map (\<lambda>e. c + int e) [0..<length rs]"
    and "ready (trainModel (on_epoch c) rs s) = ready s"
proof -
  define upd :: "nat \<times> tf_logs option \<Rightarrow> app_state \<Rightarrow> app_state"
    where "upd = (\<lambda>(e, l) s. case l of None \<Rightarrow> s | Some lg \<Rightarrow> on_epoch c (int e) lg s)"
  have step: "map epoch (logs (upd (e, Some lg) s)) = map epoch (logs s) @ [c + int e]"
             "ready (upd (e, Some lg) s) = ready s" for e lg s
    by (simp_all add: upd_def on_epoch_def)
  have "map epoch (logs (fold upd (enumerate n rs) s))
          = map epoch (logs s) @ map (\<lambda>e. c + int e) [n..<n + length rs]
        \<and> ready (fold upd (enumerate n rs) s) = ready s" for n s
    using assms
  proof (induction rs arbitrary: n s)
    case Nil
    then show ?case by simp
  next
    case (Cons r rs)
    then obtain lg where r: "r = Some lg" by (cases r) auto
    have "None \<notin> set rs" using Cons.prems by simp
    moreover have "[n..<n + length (r # rs)] = n # [Suc n..<Suc n + length rs]"
      by (simp add: upt_conv_Cons del: upt_Suc)
    ultimately show ?case
      using Cons.IH [of "Suc n" "upd (n, Some lg) s"] by (simp add: r step del: upt_Suc)
  qed
  from this [of 0 s]
  show "map epoch (logs (trainModel (on_epoch c) rs s))
           = map epoch (logs s) @ map (\<lambda>e. c + int e) [0..<length rs]"
    and "ready (trainModel (on_epoch c) rs s) = ready s"
    by (simp_all add: trainModel_def upd_def)
qed

lemma run_contiguous:
  assumes "ready st" "None \<notin> set rs" "map epoch (logs st) = map int [0..<length (logs st)]"
  shows "map epoch (logs (handleStartTraining rs st)) = map int [0..<length (logs st) + length rs]"
    and "length (logs (handleStartTraining rs st)) = length (logs st) + length rs"
    and "ready (handleStartTraining rs st)"
proof -
  let ?c = "int (length (logs st))"
  let ?s = "st\<lparr>isTraining := True, trainingProgress := 0\<rparr>"
  note T = trainModel_on_epoch [OF assms(2), of ?c ?s]
  have "map (\<lambda>e. ?c + int e) [0..<length rs]
          = map int [length (logs st)..<length (logs st) + length rs]"
    by (simp add: map_add_upt [symmetric] add.commute)
  then show e: "map epoch (logs (handleStartTraining rs st)) = map int [0..<length (logs st) + length rs]"
    using T(1) assms(1,3) upt_add_eq_append [of 0 "length (logs st)" "length rs"]
    by (simp add: handleStartTraining_def Let_def)
  from arg_cong [OF e, of length]
  show "length (logs (handleStartTraining rs st)) = length (logs st) + length rs" by simp
  show "ready (handleStartTraining rs st)"
    using assms(1) T(2) by (simp add: handleStartTraining_def Let_def)
qed

lemma sorted_wrt_map_int_upt: "sorted_wrt (<) (map int [0..<n])"
  by (simp add: sorted_wrt_map sorted_wrt_iff_nth_less)

text \<open>
  Claim C9. From a log whose epoch indices are \<open>0, 1, \<dots>\<close> without gap (the empty log
  of a new or reset model is one), two training runs in succession, each reporting logs
  for all its epochs, give a log whose epoch indices are \<open>0, 1, \<dots>\<close> up to the total
  number of entries: strictly increasing across both runs, with no gap and no reset.
\<close>

theorem training_epochs_continue:
  assumes "ready st" and "map epoch (logs st) = map int [0..<length (logs st)]"
    and "None \<notin> set run1" and "None \<notin> set run2"
  shows "map epoch (logs (handleStartTraining run2 (handleStartTraining run1 st)))
           = map int [0..<length (logs st) + length run1 + length run2]
       \<and> sorted_wrt (<) (map epoch (logs (handleStartTraining run2 (handleStartTraining run1 st))))"
proof -
  note R1 = run_contiguous [OF assms(1,3,2)]
  have inv1: "map epoch (logs (handleStartTraining run1 st))
                = map int [0..<length (logs (handleStartTraining run1 st))]"
    using R1(1,2) by simp
  note R2 = run_contiguous [OF R1(3) assms(4) inv1]
  have "map epoch (logs (handleStartTraining run2 (handleStartTraining run1 st)))
           = map int [0..<length (logs st) + length run1 + length run2]"
    using R2(1) R1(2) by simp
  then show ?thesis by (simp only: sorted_wrt_map_int_upt simp_thms)
qed

text \<open>Two runs of five epochs from a fresh state: epochs 0 to 4, then 5 to 9.\<close>

theorem training_epochs_continue_witness:
  "map epoch (logs (handleStartTraining five_epochs (handleStartTraining five_epochs fresh_state)))
     = [0, 1, 2, 3, 4, 5, 6, 7, 8, 9]"
proof -
  have a: "ready fresh_state" by (simp add: fresh_state_def)
  have b: "map epoch (logs fresh_state) = map int [0..<length (logs fresh_state)]"
    by (simp add: fresh_state_def)
  have c: "None \<notin> set five_epochs" by (simp add: five_epochs_def)
  have d: "length (logs fresh_state) + length five_epochs + length five_epochs = 10"
    by (simp add: fresh_state_def five_epochs_def)
  have e: "map int [0..<10] = [0, 1, 2, 3, 4, 5, 6, 7, 8, 9]"
    by (simp add: upt_rec)
  show ?thesis
    using training_epochs_continue [OF a b c c] by (simp only: d e)
qed

section \<open>Properties of the grid extraction\<close>

lemma pixel_offset_bound:
  fixes x y w h :: nat
  assumes "x < w" "y < h"
  shows "y * w + x < w * h"
proof -
  have "y * w + x < y * w + w" using assms(1) by simp
  also have "\<dots> = Suc y * w" by simp
  also have "\<dots> \<le> h * w" using assms(2) by (intro mult_le_mono1) simp
  finally show ?thesis by (simp add: mult.commute)
qed

lemma floor_half_diff:
  fixes w n :: nat
  assumes "n \<le> w"
  shows "\<lfloor>(real w - real n) / 2\<rfloor> = int (window_start w n)"
proof -
  have "(real w - real n) / 2 = real_of_int (int (w - n)) / real_of_int 2"
    using assms by simp
  then have "\<lfloor>(real w - real n) / 2\<rfloor> = int (w - n) div 2"
    by (simp only: floor_divide_of_int_eq)
  then show ?thesis by (simp add: window_start_def zdiv_int)
qed

lemma window_start_fits: "n \<le> w \<Longrightarrow> j < n \<Longrightarrow> window_start w n + j < w"
  by (simp add: window_start_def)

lemma byte_le_255: "unat (v :: 8 word) \<le> 255"
  using unsigned_less [of v, where ?'a = nat] by simp

lemma channel_value_red:
  assumes "wf_image img" "x < width img" "y < height img"
  shows "channel_value (data img) ((int y * int (width img) + int x) * 4)
           = Num (to_double (real (unat (red img x y)) / 255))"
proof -
  have "y * width img + x < width img * height img"
    using assms(2,3) by (rule pixel_offset_bound)
  then have "4 * (y * width img + x) < length (data img)"
    using assms(1) by (simp add: wf_image_def)
  moreover have "(int y * int (width img) + int x) * 4 = int (4 * (y * width img + x))"
    by simp
  ultimately show ?thesis
    by (simp only: channel_value_def index_def red_def nat_int of_nat_less_iff
          of_nat_0_le_iff simp_thms if_True option.case)
qed

text \<open>
  Claim C6. For a well-formed image of width \<open>W\<close> and height \<open>H\<close> and a window size
  \<open>N \<le> min W H\<close>, \<open>imageDataToGrid\<close> returns a grid of \<open>N\<close> rows of \<open>N\<close> cells; the cell
  \<open>(i, j)\<close> is the red channel of the pixel \<open>((W - N) div 2 + j, (H - N) div 2 + i)\<close>,
  a pixel of the image, divided by 255 (the double nearest to the quotient), and lies in
  \<open>[0, 1]\<close>.
\<close>

theorem grid_is_centred_window:
  assumes "wf_image img" and "n \<le> width img" and "n \<le> height img"
  shows "\<exists>g. imageDataToGrid img n = Inr g \<and> length g = n
           \<and> (\<forall>i<n. length (g ! i) = n
                \<and> (\<forall>j<n. window_start (width img) n + j < width img
                        \<and> window_start (height img) n + i < height img
                        \<and> (\<exists>v. g ! i ! j = Num v \<and> 0 \<le> v \<and> v \<le> 1
                             \<and> v = to_double
                                     (real (unat (red img (window_start (width img) n + j)
                                                           (window_start (height img) n + i)))
                                      / 255))))"
proof -
  let ?sx = "window_start (width img) n" and ?sy = "window_start (height img) n"
  define g where "g = map (\<lambda>i. map (\<lambda>j. Num (to_double
                            (real (unat (red img (?sx + j) (?sy + i))) / 255)))
                        [0..<n]) [0..<n]"
  have cellv: "channel_value (data img)
                 (((int ?sy + int i) * int (width img) + (int ?sx + int j)) * 4)
               = Num (to_double (real (unat (red img (?sx + j) (?sy + i))) / 255))"
    if "i \<in> set [0..<n]" "j \<in> set [0..<n]" for i j
  proof -
    have ij: "i < n" "j < n" using that by simp_all
    have "(int ?sy + int i) * int (width img) + (int ?sx + int j)
            = int (?sy + i) * int (width img) + int (?sx + j)"
      by simp
    then show ?thesis
      using channel_value_red [OF assms(1) window_start_fits [OF assms(2) ij(2)]
                                window_start_fits [OF assms(3) ij(1)]]
      by (simp only:)
  qed
  have "imageDataToGrid img n
          = Inr (map (\<lambda>i. map (\<lambda>j. channel_value (data img)
                   (((int ?sy + int i) * int (width img) + (int ?sx + int j)) * 4))
                   [0..<n]) [0..<n])"
    unfolding imageDataToGrid_def Let_def floor_half_diff [OF assms(2)]
      floor_half_diff [OF assms(3)]
    by (rule refl)
  also have "\<dots> = Inr g"
    unfolding g_def by (intro arg_cong [where f = Inr] map_cong refl cellv)
  finally have "imageDataToGrid img n = Inr g" .
  moreover have "length g = n" by (simp add: g_def)
  moreover have "length (g ! i) = n" if "i < n" for i using that by (simp add: g_def)
  moreover have "g ! i ! j = Num (to_double (real (unat (red img (?sx + j) (?sy + i))) / 255))"
    if "i < n" "j < n" for i j using that by (simp add: g_def)
  moreover have "0 \<le> to_double (real (unat v) / 255)" "to_double (real (unat v) / 255) \<le> 1"
    for v :: "8 word"
  proof -
    have "0 \<le> real k / 255 \<and> real k / 255 \<le> 1" if "k \<le> 255" for k :: nat
      using that by simp
    from this [OF byte_le_255 [of v]]
    have b: "0 \<le> real (unat v) / 255" "real (unat v) / 255 \<le> 1" by blast+
    show "0 \<le> to_double (real (unat v) / 255)" by (rule to_double_nonneg [OF b(1)])
    show "to_double (real (unat v) / 255) \<le> 1" by (rule to_double_le_one [OF b])
  qed
  moreover note window_start_fits [OF assms(2)] window_start_fits [OF assms(3)]
  ultimately show ?thesis by blast
qed

lemma dot_image_data:
  "dot_image = \<lparr>width = 4, height = 4,
     data = [0, 0, 0, 255,  0, 0, 0, 255,  0, 0, 0, 255,  0, 0, 0, 255,
             0, 0, 0, 255,  0, 0, 0, 255,  255, 255, 255, 255,  0, 0, 0, 255,
             0, 0, 0, 255,  51, 51, 51, 255,  0, 0, 0, 255,  0, 0, 0, 255,
             0, 0, 0, 255,  0, 0, 0, 255,  0, 0, 0, 255,  0, 0, 0, 255]\<rparr>"
  by (simp add: dot_image_def getImageData_def pixel_bytes_def upt_rec)

text \<open>
  The 4x4 image with window 2: the window starts at \<open>(1, 1)\<close>; its cell \<open>(0, 1)\<close> is the
  white pixel \<open>(2, 1)\<close> and its cell \<open>(1, 0)\<close> the pixel \<open>(1, 2)\<close> of value 51, which
  gives the double nearest to \<open>1 / 5\<close>.
\<close>

theorem grid_is_centred_window_witness:
  "wf_image dot_image \<and> window_start (width dot_image) 2 = 1
   \<and> window_start (height dot_image) 2 = 1
   \<and> imageDataToGrid dot_image 2
       = Inr [[Num 0, Num 1], [Num (3602879701896397 / 18014398509481984), Num 0]]"
proof -
  have a: "wf_image dot_image" by (simp add: wf_image_def dot_image_data)
  have b: "2 \<le> width dot_image" "2 \<le> height dot_image" by (simp_all add: dot_image_data)
  have c: "window_start (width dot_image) 2 = 1" "window_start (height dot_image) 2 = 1"
    by (simp_all add: dot_image_data window_start_def)
  have "imageDataToGrid dot_image 2
       = Inr [[Num 0, Num 1], [Num (3602879701896397 / 18014398509481984), Num 0]]"
    by (simp add: imageDataToGrid_def dot_image_data channel_value_def index_def upt_rec
          to_double_zero to_double_numerals to_double_fifth)
  with grid_is_centred_window [OF a b] a c show ?thesis by blast
qed

text \<open>
  Claim C7 as stated fails: on the one-pixel image with window 2, larger than both
  dimensions, the function returns a grid, three of whose cells were read outside the
  buffer.
\<close>

theorem grid_no_guard_counterexample:
  "width one_pixel < 2 \<and> height one_pixel < 2
   \<and> imageDataToGrid one_pixel 2 = Inr [[NaN, NaN], [NaN, Num 1]]"
  by (simp add: imageDataToGrid_def one_pixel_def channel_value_def index_def upt_rec
        to_double_numerals)

text \<open>
  Claim C7, amended. When the window size exceeds an image dimension,
  \<open>imageDataToGrid\<close> makes no check and raises no error: it returns \<open>N\<close> rows of \<open>N\<close>
  cells, and every cell whose byte index falls outside the pixel buffer is \<open>NaN\<close>.
\<close>

theorem grid_never_rejects:
  assumes "width img < n \<or> height img < n"
  shows "\<exists>g. imageDataToGrid img n = Inr g \<and> length g = n
           \<and> map length g = replicate n n
           \<and> (\<forall>i<n. \<forall>j<n.
                 (let idx = ((\<lfloor>(real (height img) - real n) / 2\<rfloor> + int i) * int (width img)
                              + (\<lfloor>(real (width img) - real n) / 2\<rfloor> + int j)) * 4
                  in idx < 0 \<or> int (length (data img)) \<le> idx \<longrightarrow> g ! i ! j = NaN))"
proof -
  have "map length (map (\<lambda>i. map (f i) [0..<n]) [0..<n]) = replicate n n" for f :: "nat \<Rightarrow> nat \<Rightarrow> num"
    by (simp add: map_replicate_const [symmetric] comp_def)
       (metis length_upt map_replicate_const minus_nat.diff_0)
  then show ?thesis
    by (auto simp: imageDataToGrid_def Let_def channel_value_def index_def)
qed

text \<open>The one-pixel image with window 2: the first cell is \<open>NaN\<close>.\<close>

theorem grid_never_rejects_witness:
  "\<exists>g. imageDataToGrid one_pixel 2 = Inr g \<and> length g = 2 \<and> g ! 0 ! 0 = NaN"
proof -
  have a: "width one_pixel < 2 \<or> height one_pixel < 2" by (simp add: one_pixel_def)
  have "\<lfloor>(real (height one_pixel) - real 2) / 2\<rfloor> = -1" "\<lfloor>(real (width one_pixel) - real 2) / 2\<rfloor> = -1"
    by (simp_all add: one_pixel_def)
  then show ?thesis
    using grid_never_rejects [OF a] by (auto simp: Let_def one_pixel_def)
qed

section \<open>Properties of the image preprocessing\<close>

lemma grow_empty: "grow {} b = b"
  by (simp add: grow_def)

lemma Min_insert2:
  fixes m v :: int
  assumes "finite S"
  shows "Min (insert m (insert v S)) = min v (Min (insert m S))"
proof -
  have "insert m (insert v S) = insert v (insert m S)" by (rule insert_commute)
  moreover have "Min (insert v (insert m S)) = min v (Min (insert m S))"
    using assms by (intro Min_insert) simp_all
  ultimately show ?thesis by (simp only:)
qed

lemma Max_insert2:
  fixes m v :: int
  assumes "finite S"
  shows "Max (insert m (insert v S)) = max v (Max (insert m S))"
proof -
  have "insert m (insert v S) = insert v (insert m S)" by (rule insert_commute)
  moreover have "Max (insert v (insert m S)) = max v (Max (insert m S))"
    using assms by (intro Max_insert) simp_all
  ultimately show ?thesis by (simp only:)
qed

lemma if_less_min: "(if v < a then v else a) = min v (a::int)"
  by (simp add: min_def)

lemma if_greater_max: "(if v > a then v else a) = max v (a::int)"
  by (simp add: max_def)

lemma scan_pixel_grow:
  assumes "finite A"
  shows "scan_pixel img y x (grow A b)
           = grow (A \<union> (if above_threshold img x y then {(int x, int y)} else {})) b"
proof (cases "above_threshold img x y")
  case False
  then show ?thesis by (simp add: scan_pixel_def)
next
  case True
  have fin: "finite (fst ` A)" "finite (snd ` A)"
    using assms by simp_all
  have im: "fst ` (A \<union> {(int x, int y)}) = insert (int x) (fst ` A)"
           "snd ` (A \<union> {(int x, int y)}) = insert (int y) (snd ` A)"
    by auto
  have ne: "(hasPixels b \<or> A \<union> {(int x, int y)} \<noteq> {}) = True" by simp
  show ?thesis
    by (simp only: scan_pixel_def grow_def True if_True bbox.select_convs im ne
          Min_insert2 [OF fin(1)] Min_insert2 [OF fin(2)]
          Max_insert2 [OF fin(1)] Max_insert2 [OF fin(2)] if_less_min if_greater_max)
qed

lemma fold_row:
  assumes "finite A"
  shows "fold (scan_pixel img y) xs (grow A b)
           = grow (A \<union> (\<lambda>x. (int x, int y)) ` {x \<in> set xs. above_threshold img x y}) b"
  using assms
proof (induction xs arbitrary: A)
  case Nil
  then show ?case by simp
next
  case (Cons x xs)
  let ?A' = "A \<union> (if above_threshold img x y then {(int x, int y)} else {})"
  have "finite ?A'" using Cons.prems by simp
  from Cons.IH [OF this]
  have "fold (scan_pixel img y) xs (grow ?A' b)
          = grow (?A' \<union> (\<lambda>x. (int x, int y)) ` {x \<in> set xs. above_threshold img x y}) b" .
  moreover have "?A' \<union> (\<lambda>x. (int x, int y)) ` {x \<in> set xs. above_threshold img x y}
          = A \<union> (\<lambda>x. (int x, int y)) ` {xa \<in> set (x # xs). above_threshold img xa y}"
    by auto
  ultimately show ?case by (simp only: fold_simps scan_pixel_grow [OF Cons.prems])
qed

lemma fold_rows:
  assumes "finite A"
  shows "fold (\<lambda>y. fold (scan_pixel img y) xs) ys (grow A b)
           = grow (A \<union> (\<lambda>(x, y). (int x, int y)) `
                          {(x, y). x \<in> set xs \<and> y \<in> set ys \<and> above_threshold img x y}) b"
  using assms
proof (induction ys arbitrary: A)
  case Nil
  then show ?case by simp
next
  case (Cons y ys)
  let ?A' = "A \<union> (\<lambda>x. (int x, int y)) ` {x \<in> set xs. above_threshold img x y}"
  have "finite ?A'" using Cons.prems by simp
  from Cons.IH [OF this]
  have "fold (\<lambda>y. fold (scan_pixel img y) xs) ys (grow ?A' b)
          = grow (?A' \<union> (\<lambda>(x, y). (int x, int y)) `
                          {(x, y). x \<in> set xs \<and> y \<in> set ys \<and> above_threshold img x y}) b" .
  moreover have "?A' \<union> (\<lambda>(x, y). (int x, int y)) `
                          {(x, y). x \<in> set xs \<and> y \<in> set ys \<and> above_threshold img x y}
          = A \<union> (\<lambda>(x, y). (int x, int y)) `
                          {(x, ya). x \<in> set xs \<and> ya \<in> set (y # ys) \<and> above_threshold img x ya}"
    by auto
  ultimately show ?case by (simp only: fold_simps fold_row [OF Cons.prems])
qed

lemma foreground_image:
  "foreground img = (\<lambda>(x, y). (int x, int y)) `
     {(x, y). x \<in> set [0..<width img] \<and> y \<in> set [0..<height img] \<and> above_threshold img x y}"
  by (auto simp: foreground_def)

lemma finite_foreground: "finite (foreground img)"
proof -
  have "{(x, y). x \<in> set [0..<width img] \<and> y \<in> set [0..<height img] \<and> above_threshold img x y}
          \<subseteq> {..<width img} \<times> {..<height img}"
    by auto
  then have "finite {(x, y). x \<in> set [0..<width img] \<and> y \<in> set [0..<height img]
                       \<and> above_threshold img x y}"
    by (rule finite_subset) simp
  then show ?thesis by (simp only: foreground_image finite_imageI)
qed

lemma scan_grow:
  "scan img = grow (foreground img)
     \<lparr>minX = int (width img), minY = int (height img), maxX = 0, maxY = 0, hasPixels = False\<rparr>"
proof -
  let ?init = "\<lparr>minX = int (width img), minY = int (height img), maxX = 0, maxY = 0,
                 hasPixels = False\<rparr>"
  have "scan img = fold (\<lambda>y. fold (scan_pixel img y) [0..<width img]) [0..<height img]
                     (grow {} ?init)"
    by (simp only: scan_def grow_empty)
  also have "\<dots> = grow ({} \<union> foreground img) ?init"
    by (simp only: fold_rows [OF finite.emptyI] foreground_image)
  finally show ?thesis by simp
qed

lemma scan_empty:
  assumes "foreground img = {}"
  shows "\<not> hasPixels (scan img)"
  using assms by (simp add: scan_grow grow_def)

lemma Min_insert_absorb:
  fixes m :: int
  assumes "finite S" "S \<noteq> {}" "Min S \<le> m"
  shows "Min (insert m S) = Min S"
proof -
  have "Min (insert m S) = min m (Min S)" using assms(1,2) by (rule Min_insert)
  then show ?thesis using assms(3) by (simp only: min_absorb2)
qed

lemma Max_insert_absorb:
  fixes m :: int
  assumes "finite S" "S \<noteq> {}" "m \<le> Max S"
  shows "Max (insert m S) = Max S"
proof -
  have "Max (insert m S) = max m (Max S)" using assms(1,2) by (rule Max_insert)
  then show ?thesis using assms(3) by (simp only: max_absorb2)
qed

lemma scan_bounding_box:
  assumes "foreground img \<noteq> {}"
  shows "scan img = bounding_box img"
proof -
  let ?F = "foreground img"
  have fin: "finite (fst ` ?F)" "finite (snd ` ?F)" using finite_foreground by simp_all
  have ne: "fst ` ?F \<noteq> {}" "snd ` ?F \<noteq> {}" using assms by simp_all
  have bx: "0 \<le> a \<and> a < int (width img)" if "a \<in> fst ` ?F" for a
    using that by (auto simp: foreground_def)
  have by': "0 \<le> a \<and> a < int (height img)" if "a \<in> snd ` ?F" for a
    using that by (auto simp: foreground_def)
  have "Min (fst ` ?F) \<in> fst ` ?F" "Max (fst ` ?F) \<in> fst ` ?F"
       "Min (snd ` ?F) \<in> snd ` ?F" "Max (snd ` ?F) \<in> snd ` ?F"
    by (rule Min_in [OF fin(1) ne(1)] Max_in [OF fin(1) ne(1)]
          Min_in [OF fin(2) ne(2)] Max_in [OF fin(2) ne(2)])+
  then have b: "Min (fst ` ?F) \<le> int (width img)" "0 \<le> Max (fst ` ?F)"
            "Min (snd ` ?F) \<le> int (height img)" "0 \<le> Max (snd ` ?F)"
    using bx by' by (blast intro: less_imp_le)+
  have hp: "(False \<or> ?F \<noteq> {}) = True" using assms by simp
  show ?thesis
    by (simp only: scan_grow grow_def bounding_box_def bbox.select_convs hp
          Min_insert_absorb [OF fin(1) ne(1) b(1)] Min_insert_absorb [OF fin(2) ne(2) b(3)]
          Max_insert_absorb [OF fin(1) ne(1) b(2)] Max_insert_absorb [OF fin(2) ne(2) b(4)])
qed

lemma length_concat_uniform:
  assumes "\<forall>r\<in>set rows. length r = n"
  shows "length (concat rows) = length rows * n"
  using assms by (induction rows) simp_all

lemma nth_concat_uniform:
  assumes "\<forall>r\<in>set rows. length r = n" "i < length rows" "j < n"
  shows "concat rows ! (i * n + j) = rows ! i ! j"
  using assms
proof (induction rows arbitrary: i)
  case Nil
  then show ?case by simp
next
  case (Cons r rows)
  show ?case
  proof (cases i)
    case 0
    then show ?thesis using Cons.prems by (simp add: nth_append)
  next
    case (Suc k)
    then have "concat rows ! (k * n + j) = rows ! k ! j"
      using Cons.prems by (intro Cons.IH) simp_all
    moreover have "Suc k * n + j = length r + (k * n + j)" using Cons.prems by simp
    ultimately show ?thesis using Suc by (simp only: concat.simps nth_append_length_plus nth_Cons_Suc)
  qed
qed

lemma length_pixel_bytes: "length (pixel_bytes px) = 4"
  by (cases px) (simp add: pixel_bytes_def)

lemma pixel_bytes_red: "pixel_bytes px ! 0 = fst px"
  by (cases px) (simp add: pixel_bytes_def)

lemma getImageData_fields:
  "width (getImageData bm w h) = w" "height (getImageData bm w h) = h"
  by (simp_all add: getImageData_def)

lemma getImageData_wf: "wf_image (getImageData bm w h)"
proof -
  have row: "length (concat (map (\<lambda>x. pixel_bytes (bm (int x) (int y))) [0..<w])) = w * 4" for y
    using length_concat_uniform [of "map (\<lambda>x. pixel_bytes (bm (int x) (int y))) [0..<w]" 4]
    by (simp add: length_pixel_bytes)
  have "length (data (getImageData bm w h)) = h * (w * 4)"
    using length_concat_uniform
      [of "map (\<lambda>y. concat (map (\<lambda>x. pixel_bytes (bm (int x) (int y))) [0..<w])) [0..<h]" "w * 4"]
    by (simp add: getImageData_def row)
  then show ?thesis by (simp add: wf_image_def getImageData_fields)
qed

lemma getImageData_red:
  assumes "x < w" "y < h"
  shows "red (getImageData bm w h) x y = fst (bm (int x) (int y))"
proof -
  let ?row = "\<lambda>y. concat (map (\<lambda>x. pixel_bytes (bm (int x) (int y))) [0..<w])"
  have row: "length (?row y) = w * 4" for y
    using length_concat_uniform [of "map (\<lambda>x. pixel_bytes (bm (int x) (int y))) [0..<w]" 4]
    by (simp add: length_pixel_bytes)
  have "x * 4 + 0 < w * 4" using assms(1) by simp
  then have "concat (map ?row [0..<h]) ! (y * (w * 4) + (x * 4 + 0)) = map ?row [0..<h] ! y ! (x * 4 + 0)"
    using assms(2) by (intro nth_concat_uniform) (simp_all add: row)
  also have "\<dots> = ?row y ! (x * 4 + 0)" using assms(2) by simp
  also have "\<dots> = map (\<lambda>x. pixel_bytes (bm (int x) (int y))) [0..<w] ! x ! 0"
    using assms(1) by (intro nth_concat_uniform) (simp_all add: length_pixel_bytes)
  also have "\<dots> = fst (bm (int x) (int y))" using assms(1) by (simp add: pixel_bytes_red)
  finally have "concat (map ?row [0..<h]) ! (y * (w * 4) + (x * 4 + 0)) = fst (bm (int x) (int y))" .
  moreover have "4 * (y * w + x) = y * (w * 4) + (x * 4 + 0)" by simp
  ultimately show ?thesis by (simp only: red_def getImageData_def ImageData.select_convs)
qed

lemma above_threshold_red:
  assumes "wf_image img" "x < width img" "y < height img"
  shows "above_threshold img x y = (50 < unat (red img x y))"
proof -
  have "y * width img + x < width img * height img"
    using assms(2,3) by (rule pixel_offset_bound)
  then have "4 * (y * width img + x) < length (data img)"
    using assms(1) by (simp add: wf_image_def)
  moreover have "(int y * int (width img) + int x) * 4 = int (4 * (y * width img + x))"
    by simp
  ultimately show ?thesis
    by (simp only: above_threshold_def index_def red_def nat_int of_nat_less_iff
          of_nat_0_le_iff simp_thms if_True option.case)
qed

lemma getImageData_above:
  assumes "x < w" "y < h"
  shows "above_threshold (getImageData bm w h) x y = (50 < unat (fst (bm (int x) (int y))))"
  using above_threshold_red [OF getImageData_wf, of x bm w h y] assms
  by (simp add: getImageData_fields getImageData_red)

text \<open>
  Claim C4. For a well-formed image in which no pixel has a red channel above 50,
  \<open>preprocessImage\<close> returns the image it was given, whatever the environment.
\<close>

theorem preprocess_empty_unchanged:
  assumes "wf_image img"
    and "\<forall>x<width img. \<forall>y<height img. unat (red img x y) \<le> 50"
  shows "preprocessImage env img = img"
proof -
  have "\<not> above_threshold img x y" if "x < width img" "y < height img" for x y
  proof -
    have "unat (red img x y) \<le> 50" using assms(2) that by blast
    then show ?thesis by (simp add: above_threshold_red [OF assms(1) that])
  qed
  then have "foreground img = {}" by (auto simp: foreground_def)
  then have "\<not> hasPixels (scan img)" by (rule scan_empty)
  then show ?thesis by (simp add: preprocessImage_def)
qed

text \<open>The all-black 28x28 image comes back as it is.\<close>

theorem preprocess_empty_unchanged_witness:
  "preprocessImage ideal_env black_image = black_image"
proof -
  have a: "wf_image black_image" by (simp add: black_image_def getImageData_wf)
  have b: "\<forall>x<width black_image. \<forall>y<height black_image. unat (red black_image x y) \<le> 50"
    by (simp add: black_image_def getImageData_fields getImageData_red)
  show ?thesis by (rule preprocess_empty_unchanged [OF a b])
qed

lemma black_canvas_read:
  "getImageData (fillRect_black new_canvas 0 0 28 28) 28 28 = black_image"
proof -
  have "pixel_bytes (fillRect_black new_canvas 0 0 28 28 (int x) (int y)) = pixel_bytes (0, 0, 0, 255)"
    if "x \<in> set [0..<28]" "y \<in> set [0..<28]" for x y
    using that by (simp add: fillRect_black_def)
  then have "map (\<lambda>y. concat (map (\<lambda>x. pixel_bytes (fillRect_black new_canvas 0 0 28 28 (int x) (int y)))
                 [0..<28])) [0..<28]
        = map (\<lambda>y. concat (map (\<lambda>x. pixel_bytes (0, 0, 0, 255)) [0..<28])) [0..<28]"
    by (intro map_cong arg_cong [where f = concat] refl) 
  then show ?thesis by (simp only: getImageData_def black_image_def)
qed

lemma drawImage_empty:
  assumes "scaledWidth pl = 0 \<or> scaledHeight pl = 0"
  shows "drawImage env src pl bm = bm"
  using assms by (auto simp: drawImage_def fun_eq_iff)

lemma foreground_black: "foreground black_image = {}"
  by (auto simp: foreground_def black_image_def getImageData_fields getImageData_above)

lemma preprocess_draws:
  assumes "foreground img \<noteq> {}" "canvas_ctx env" "temp_ctx env"
  shows "preprocessImage env img
           = getImageData (drawImage env img (place (bounding_box img))
                             (fillRect_black new_canvas 0 0 28 28)) 28 28"
proof -
  have "scan img = bounding_box img" using assms(1) by (rule scan_bounding_box)
  moreover have "hasPixels (bounding_box img)" by (simp add: bounding_box_def)
  ultimately show ?thesis using assms(2,3) by (simp add: preprocessImage_def Let_def)
qed

text \<open>
  Claim C5. For an image with at least one pixel above the threshold, in an environment
  that provides both 2D contexts: with the bounding box of those pixels,
  \<open>s = min (20 / bboxWidth) (20 / bboxHeight)\<close>, scaled dimensions
  \<open>\<lfloor>bboxDimension * s\<rfloor>\<close> and offsets \<open>\<lfloor>(28 - scaledDimension) / 2\<rfloor>\<close>, the result of
  \<open>preprocessImage\<close> is what \<open>getImageData\<close> reads from a black 28x28 canvas on which the
  bounding-box region was drawn into that destination rectangle; it is a well-formed
  image of width 28 and height 28. The quotients and the products are doubles, as the
  code computes them.
\<close>

theorem preprocess_placement:
  assumes "foreground img \<noteq> {}" and "canvas_ctx env" and "temp_ctx env"
  shows "let bb = bounding_box img;
             bboxWidth = maxX bb - minX bb + 1; bboxHeight = maxY bb - minY bb + 1;
             s = min (to_double (20 / real_of_int bboxWidth))
                     (to_double (20 / real_of_int bboxHeight));
             sw = \<lfloor>to_double (real_of_int bboxWidth * s)\<rfloor>;
             sh = \<lfloor>to_double (real_of_int bboxHeight * s)\<rfloor>;
             out = preprocessImage env img
         in out = getImageData
                    (drawImage env img
                       \<lparr>src_x = minX bb, src_y = minY bb,
                        contentWidth = bboxWidth, contentHeight = bboxHeight,
                        dx = \<lfloor>(28 - real_of_int sw) / 2\<rfloor>, dy = \<lfloor>(28 - real_of_int sh) / 2\<rfloor>,
                        scaledWidth = sw, scaledHeight = sh\<rparr>
                       (fillRect_black new_canvas 0 0 28 28)) 28 28
          \<and> width out = 28 \<and> height out = 28 \<and> wf_image out"
  using preprocess_draws [OF assms]
  by (simp add: Let_def place_def scale_def getImageData_fields getImageData_wf)

lemma block_foreground:
  "foreground block_image = (\<lambda>(x, y). (int x, int y)) ` ({5..10} \<times> {3..20})"
proof -
  have "above_threshold block_image x y = (5 \<le> x \<and> x \<le> 10 \<and> 3 \<le> y \<and> y \<le> 20)"
    if "x < 28" "y < 28" for x y
    using that by (simp add: block_image_def getImageData_above)
  then have "{(x, y). x \<in> set [0..<width block_image] \<and> y \<in> set [0..<height block_image]
                \<and> above_threshold block_image x y} = {5..10} \<times> {3..20}"
    by (auto simp: block_image_def getImageData_fields)
  then show ?thesis by (simp only: foreground_image)
qed

lemma block_bounding_box:
  "bounding_box block_image = \<lparr>minX = 5, minY = 3, maxX = 10, maxY = 20, hasPixels = True\<rparr>"
proof -
  have f: "fst ` foreground block_image = int ` {5..10}"
          "snd ` foreground block_image = int ` {3..20}"
    by (force simp: block_foreground)+
  have "Min (int ` {5..10}) = 5"
    by (intro Min_eqI) (auto intro!: image_eqI [where x = 5])
  moreover have "Max (int ` {5..10}) = 10"
    by (intro Max_eqI) (auto intro!: image_eqI [where x = 10])
  moreover have "Min (int ` {3..20}) = 3"
    by (intro Min_eqI) (auto intro!: image_eqI [where x = 3])
  moreover have "Max (int ` {3..20}) = 20"
    by (intro Max_eqI) (auto intro!: image_eqI [where x = 20])
  ultimately show ?thesis by (simp add: bounding_box_def f)
qed

lemma block_scale: "scale 6 18 = 2501999792983609 / 2251799813685248"
  by (simp add: scale_def to_double_ten_thirds to_double_ten_ninths)

lemma block_place:
  "place (bounding_box block_image)
     = \<lparr>src_x = 5, src_y = 3, contentWidth = 6, contentHeight = 18, dx = 11, dy = 4,
        scaledWidth = 6, scaledHeight = 20\<rparr>"
proof -
  have w: "to_double (7505999378950827 / 1125899906842624)
             = 7505999378950827 / 1125899906842624"
    using to_double_six_scaled by simp
  have h: "to_double (22517998136852481 / 1125899906842624) = 20"
    using to_double_eighteen_scaled by simp
  have "\<lfloor>7505999378950827 / 1125899906842624 :: real\<rfloor> = 6"
    by (simp add: floor_eq_iff)
  then show ?thesis
    by (simp add: place_def block_bounding_box block_scale Let_def w h)
qed

text \<open>
  The 28x28 image with the bright block: the box is 6 wide and 18 tall, the scale is the
  double nearest to \<open>10 / 9\<close>, the destination is 6 wide and 20 tall at \<open>(11, 4)\<close>.
\<close>

theorem preprocess_placement_witness:
  "foreground block_image \<noteq> {}
   \<and> place (bounding_box block_image)
       = \<lparr>src_x = 5, src_y = 3, contentWidth = 6, contentHeight = 18, dx = 11, dy = 4,
          scaledWidth = 6, scaledHeight = 20\<rparr>
   \<and> preprocessImage ideal_env block_image
       = getImageData
           (drawImage ideal_env block_image
              \<lparr>src_x = 5, src_y = 3, contentWidth = 6, contentHeight = 18, dx = 11, dy = 4,
               scaledWidth = 6, scaledHeight = 20\<rparr>
              (fillRect_black new_canvas 0 0 28 28)) 28 28
   \<and> width (preprocessImage ideal_env block_image) = 28
   \<and> height (preprocessImage ideal_env block_image) = 28
   \<and> wf_image (preprocessImage ideal_env block_image)"
proof -
  have "(5, 3) \<in> foreground block_image"
    by (simp add: block_foreground image_iff)
  then have a: "foreground block_image \<noteq> {}" by blast
  have b: "canvas_ctx ideal_env" "temp_ctx ideal_env" by (simp_all add: ideal_env_def)
  have pl: "\<lparr>src_x = minX (bounding_box block_image), src_y = minY (bounding_box block_image),
             contentWidth = maxX (bounding_box block_image) - minX (bounding_box block_image) + 1,
             contentHeight = maxY (bounding_box block_image) - minY (bounding_box block_image) + 1,
             dx = \<lfloor>(28 - real_of_int \<lfloor>to_double (real_of_int (maxX (bounding_box block_image) - minX (bounding_box block_image) + 1)
                     * min (to_double (20 / real_of_int (maxX (bounding_box block_image) - minX (bounding_box block_image) + 1)))
                           (to_double (20 / real_of_int (maxY (bounding_box block_image) - minY (bounding_box block_image) + 1))))\<rfloor>) / 2\<rfloor>,
             dy = \<lfloor>(28 - real_of_int \<lfloor>to_double (real_of_int (maxY (bounding_box block_image) - minY (bounding_box block_image) + 1)
                     * min (to_double (20 / real_of_int (maxX (bounding_box block_image) - minX (bounding_box block_image) + 1)))
                           (to_double (20 / real_of_int (maxY (bounding_box block_image) - minY (bounding_box block_image) + 1))))\<rfloor>) / 2\<rfloor>,
             scaledWidth = \<lfloor>to_double (real_of_int (maxX (bounding_box block_image) - minX (bounding_box block_image) + 1)
                     * min (to_double (20 / real_of_int (maxX (bounding_box block_image) - minX (bounding_box block_image) + 1)))
                           (to_double (20 / real_of_int (maxY (bounding_box block_image) - minY (bounding_box block_image) + 1))))\<rfloor>,
             scaledHeight = \<lfloor>to_double (real_of_int (maxY (bounding_box block_image) - minY (bounding_box block_image) + 1)
                     * min (to_double (20 / real_of_int (maxX (bounding_box block_image) - minX (bounding_box block_image) + 1)))
                           (to_double (20 / real_of_int (maxY (bounding_box block_image) - minY (bounding_box block_image) + 1))))\<rfloor>\<rparr>
            = place (bounding_box block_image)"
    by (simp add: place_def scale_def Let_def)
  from preprocess_placement [OF a b, unfolded Let_def pl block_place] a block_place
  show ?thesis by blast
qed

text \<open>Without a 2D context nothing is drawn: the input comes back.\<close>

lemma preprocess_without_context:
  assumes "\<not> canvas_ctx env \<or> \<not> temp_ctx env"
  shows "preprocessImage env img = img"
  using assms by (auto simp: preprocessImage_def Let_def)

lemma thin_scale:
  fixes c :: int
  assumes "20 < c"
  shows "scale 1 c = to_double (20 / real_of_int c)"
proof -
  define b :: real where "b = of_int (2 ^ 53 - 1) / 2 ^ 53"
  have b1: "b < 1" by (simp add: b_def)
  have "21 \<le> real_of_int c" using assms by simp
  then have q: "0 \<le> 20 / real_of_int c" "20 / real_of_int c \<le> b"
    by (simp_all add: b_def field_simps)
  have "to_double (20 / real_of_int c) \<le> b"
    using to_double_le_below_one [OF q(1), of "2 ^ 53 - 1"] q(2) b1 by (simp add: b_def)
  then show ?thesis using b1 by (simp add: scale_def to_double_numerals min_def)
qed

lemma thin_scaled:
  fixes c :: int
  assumes "20 < c"
  shows "\<lfloor>to_double (real_of_int 1 * scale 1 c)\<rfloor> = 0"
        "\<lfloor>to_double (real_of_int 1 * scale c 1)\<rfloor> = 0"
proof -
  define b :: real where "b = of_int (2 ^ 53 - 1) / 2 ^ 53"
  have b1: "b < 1" by (simp add: b_def)
  have "21 \<le> real_of_int c" using assms by simp
  then have q: "0 \<le> 20 / real_of_int c" "20 / real_of_int c \<le> b"
    by (simp_all add: b_def field_simps)
  have r: "0 \<le> to_double (20 / real_of_int c)" "to_double (20 / real_of_int c) \<le> b"
    using to_double_nonneg [OF q(1)] to_double_le_below_one [OF q(1), of "2 ^ 53 - 1"] q(2) b1
    by (simp_all add: b_def)
  then have s: "scale 1 c = to_double (20 / real_of_int c)"
               "scale c 1 = to_double (20 / real_of_int c)"
    using b1 by (simp_all add: scale_def to_double_numerals min_def)
  have "0 \<le> to_double (to_double (20 / real_of_int c))"
       "to_double (to_double (20 / real_of_int c)) \<le> b"
    using to_double_nonneg [OF r(1)] to_double_le_below_one [OF r(1), of "2 ^ 53 - 1"] r(2) b1
    by (simp_all add: b_def)
  then have "\<lfloor>to_double (to_double (20 / real_of_int c))\<rfloor> = 0"
    using b1 by (simp add: floor_eq_iff)
  then show "\<lfloor>to_double (real_of_int 1 * scale 1 c)\<rfloor> = 0"
            "\<lfloor>to_double (real_of_int 1 * scale c 1)\<rfloor> = 0"
    by (simp_all add: s)
qed

text \<open>
  Claim C10. When the bounding box of the pixels above the threshold is one pixel wide
  and more than 20 pixels tall (or one pixel tall and more than 20 wide), the scaled
  width (or height) is 0, nothing is drawn, and \<open>preprocessImage\<close> returns the all-black
  28x28 image, in which no pixel is above the threshold.
\<close>

theorem thin_stroke_erased:
  assumes "foreground img \<noteq> {}" and "canvas_ctx env" and "temp_ctx env"
    and "(maxX (bounding_box img) - minX (bounding_box img) + 1 = 1
            \<and> 20 < maxY (bounding_box img) - minY (bounding_box img) + 1)
         \<or> (maxY (bounding_box img) - minY (bounding_box img) + 1 = 1
            \<and> 20 < maxX (bounding_box img) - minX (bounding_box img) + 1)"
  shows "(scaledWidth (place (scan img)) = 0 \<or> scaledHeight (place (scan img)) = 0)
       \<and> preprocessImage env img = black_image
       \<and> foreground (preprocessImage env img) = {}"
proof -
  have sc: "scan img = bounding_box img" using assms(1) by (rule scan_bounding_box)
  have z: "scaledWidth (place (bounding_box img)) = 0 \<or> scaledHeight (place (bounding_box img)) = 0"
    using assms(4)
  proof
    assume a: "maxX (bounding_box img) - minX (bounding_box img) + 1 = 1
            \<and> 20 < maxY (bounding_box img) - minY (bounding_box img) + 1"
    then have "scaledWidth (place (bounding_box img)) = 0"
      using thin_scaled(1) [of "maxY (bounding_box img) - minY (bounding_box img) + 1"]
      by (simp add: place_def Let_def)
    then show ?thesis ..
  next
    assume a: "maxY (bounding_box img) - minY (bounding_box img) + 1 = 1
            \<and> 20 < maxX (bounding_box img) - minX (bounding_box img) + 1"
    then have "scaledHeight (place (bounding_box img)) = 0"
      using thin_scaled(2) [of "maxX (bounding_box img) - minX (bounding_box img) + 1"]
      by (simp add: place_def Let_def)
    then show ?thesis ..
  qed
  have "preprocessImage env img = black_image"
    by (simp only: preprocess_draws [OF assms(1-3)] drawImage_empty [OF z] black_canvas_read)
  with z sc show ?thesis by (simp add: foreground_black)
qed

lemma rows_nonempty: "{..<28::nat} \<noteq> {}"
proof -
  have "(0::nat) \<in> {..<28}" by simp
  then show ?thesis by blast
qed

lemma column_foreground: "foreground column_image = {13} \<times> int ` {..<28}"
proof -
  have "above_threshold column_image x y = (x = 13)" if "x < 28" "y < 28" for x y
    using that by (simp add: column_image_def getImageData_above)
  then show ?thesis
    by (auto simp: foreground_def column_image_def getImageData_fields)
qed

lemma column_bounding_box:
  "bounding_box column_image = \<lparr>minX = 13, minY = 0, maxX = 13, maxY = 27, hasPixels = True\<rparr>"
proof -
  have f: "fst ` foreground column_image = {13}" "snd ` foreground column_image = int ` {..<28}"
    using rows_nonempty by (auto simp: column_foreground)
  have "Min (int ` {..<28}) = 0"
    by (intro Min_eqI) (auto intro!: image_eqI [where x = 0])
  moreover have "Max (int ` {..<28}) = 27"
    by (intro Max_eqI) (auto intro!: image_eqI [where x = 27])
  ultimately show ?thesis by (simp add: bounding_box_def f)
qed

text \<open>
  The 28x28 image with the bright column \<open>x = 13\<close>: its content is 1 wide and 28 tall,
  the scale is 20/28 (the double nearest to it), the scaled width is 0 and the result is
  all black, even when the resampling filter would paint white.
\<close>

theorem thin_stroke_erased_witness:
  "foreground column_image \<noteq> {}
   \<and> width column_image = 28 \<and> height column_image = 28
   \<and> contentWidth (place (scan column_image)) = 1
   \<and> contentHeight (place (scan column_image)) = 28
   \<and> scale 1 28 = to_double (20 / 28)
   \<and> scaledWidth (place (scan column_image)) = 0
   \<and> preprocessImage ideal_env column_image = black_image
   \<and> foreground (preprocessImage ideal_env column_image) = {}"
proof -
  have a: "foreground column_image \<noteq> {}" by (simp add: column_foreground rows_nonempty)
  have b: "canvas_ctx ideal_env" "temp_ctx ideal_env" by (simp_all add: ideal_env_def)
  have c: "(maxX (bounding_box column_image) - minX (bounding_box column_image) + 1 = 1
            \<and> 20 < maxY (bounding_box column_image) - minY (bounding_box column_image) + 1)
         \<or> (maxY (bounding_box column_image) - minY (bounding_box column_image) + 1 = 1
            \<and> 20 < maxX (bounding_box column_image) - minX (bounding_box column_image) + 1)"
    by (simp add: column_bounding_box)
  have sc: "scan column_image = bounding_box column_image" using a by (rule scan_bounding_box)
  have s: "scale 1 28 = to_double (20 / 28)"
    using thin_scale [of 28] by simp
  have t: "\<lfloor>to_double (scale 1 28)\<rfloor> = 0"
    using thin_scaled(1) [of 28] by simp
  have d: "contentWidth (place (scan column_image)) = 1"
          "contentHeight (place (scan column_image)) = 28"
          "scaledWidth (place (scan column_image)) = 0"
    by (simp_all add: sc column_bounding_box place_def Let_def t)
  have e: "width column_image = 28" "height column_image = 28"
    by (simp_all add: column_image_def getImageData_fields)
  from thin_stroke_erased [OF a b c] a s d e show ?thesis by blast
qed

lemma to_double_tall_scale: "to_double (20 / 77) = 2339532273958699 / 9007199254740992"
proof -
  have u: "(1 / 2 ^ 54 :: real) = 2 powr of_int (- 2 - 52)" by (simp add: powr_minus_divide)
  have "to_double (20 / 77) = of_int (rne ((20 / 77) / (1 / 2 ^ 54))) * (1 / 2 ^ 54)"
    by (rule to_double_grid [OF u]) simp_all
  moreover have "rne ((20 / 77) / (1 / 2 ^ 54)) = 4679064547917398"
    by (rule rne_down) simp_all
  ultimately show ?thesis by simp
qed

lemma to_double_tall_width:
  "to_double (4 * (2339532273958699 / 9007199254740992)) = 2339532273958699 / 2251799813685248"
proof -
  have u: "(1 / 2 ^ 52 :: real) = 2 powr of_int (0 - 52)" by (simp add: powr_minus_divide)
  have "to_double (4 * (2339532273958699 / 9007199254740992))
          = of_int (rne (4 * (2339532273958699 / 9007199254740992) / (1 / 2 ^ 52)))
              * (1 / 2 ^ 52)"
    by (rule to_double_grid [OF u]) simp_all
  then show ?thesis by (simp add: rne_numeral)
qed

lemma to_double_tall_height:
  "to_double (77 * (2339532273958699 / 9007199254740992))
     = 5629499534213119 / 281474976710656"
proof -
  have u: "(1 / 2 ^ 48 :: real) = 2 powr of_int (4 - 52)" by (simp add: powr_minus_divide)
  have "to_double (77 * (2339532273958699 / 9007199254740992))
          = of_int (rne (77 * (2339532273958699 / 9007199254740992) / (1 / 2 ^ 48)))
              * (1 / 2 ^ 48)"
    by (rule to_double_grid [OF u]) simp_all
  moreover have "rne (77 * (2339532273958699 / 9007199254740992) / (1 / 2 ^ 48))
                   = 5629499534213119"
    by (rule rne_down) simp_all
  ultimately show ?thesis by simp
qed

text \<open>
  A box 4 wide and 77 tall: the product of 77 and the double nearest to \<open>20 / 77\<close> rounds
  to a double just below 20, so the scaled height is 19, where the real numbers give 20.
\<close>

lemma place_rounds:
  "scaledWidth (place tall_box) = 1" "scaledHeight (place tall_box) = 19"
  "dy (place tall_box) = 4"
  "\<lfloor>real_of_int 77 * min (20 / real_of_int 4) (20 / real_of_int 77)\<rfloor> = 20"
proof -
  have s: "scale 4 77 = 2339532273958699 / 9007199254740992"
    using to_double_Ints [of 5] by (simp add: scale_def to_double_tall_scale)
  have w: "\<lfloor>to_double (4 * (2339532273958699 / 9007199254740992))\<rfloor> = 1"
    by (simp only: to_double_tall_width) (simp add: floor_eq_iff)
  have h: "\<lfloor>to_double (77 * (2339532273958699 / 9007199254740992))\<rfloor> = 19"
    by (simp only: to_double_tall_height) (simp add: floor_eq_iff)
  show "scaledWidth (place tall_box) = 1"
    using w by (simp add: place_def tall_box_def Let_def s del: times_divide_eq_right)
  show "scaledHeight (place tall_box) = 19"
    using h by (simp add: place_def tall_box_def Let_def s del: times_divide_eq_right)
  show "dy (place tall_box) = 4"
    using h by (simp add: place_def tall_box_def Let_def s del: times_divide_eq_right)
  show "\<lfloor>real_of_int 77 * min (20 / real_of_int 4) (20 / real_of_int 77)\<rfloor> = 20"
    by simp
qed

end
